theory Spec2Isabelle
  imports Main "HOL-Library.Sublist"
begin

section \<open>The notebook's data model: CIM instances\<close>

text \<open>
  The notebook \<^verbatim>\<open>docs/notebooks/datamodel.ipynb\<close> holds one code cell, a caller of the
  library class \<^verbatim>\<open>pywbem.CIMInstance\<close>:
  \<^verbatim>\<open>
  inst = pywbem.CIMInstance('CIM_Person')
  inst['Firstname'] = 'Tim'
  inst['Lastname'] = 'Potter'
  print(inst.items())
  print(inst['firstname'])
  \<close>
  The class itself is not among the source files. Its model below follows the
  specification's description of an instance; the cell is embedded as it is written.
\<close>

datatype py_error = KeyError string

text \<open>
  Lower-casing of a property name, as Python 2's \<^verbatim>\<open>str.lower\<close> does it on ASCII
  letters: the codes 65 to 90 (A to Z) move up by 32, every other character stays.
\<close>

definition is_upper :: "char \<Rightarrow> bool" where
  "is_upper c = (65 \<le> (of_char c :: nat) \<and> (of_char c :: nat) \<le> 90)"

definition to_lower :: "char \<Rightarrow> char" where
  "to_lower c = (if is_upper c then char_of ((of_char c :: nat) + 32) else c)"

definition lower :: "string \<Rightarrow> string" where
  "lower s = map to_lower s"

text \<open>
  Two characters are case variants when they are equal or one is the lower-case form of
  the other, an upper-case letter; two names differ only in letter case when they are
  case variants position by position.
\<close>

definition case_variant :: "char \<Rightarrow> char \<Rightarrow> bool" where
  "case_variant c d =
     (c = d \<or> (is_upper c \<and> d = to_lower c) \<or> (is_upper d \<and> c = to_lower d))"

definition differs_only_in_case :: "string \<Rightarrow> string \<Rightarrow> bool" where
  "differs_only_in_case k k' = list_all2 case_variant k k'"

text \<open>
  Modelled from the spec: the class \<^verbatim>\<open>pywbem.CIMInstance\<close> (constructor, item
  assignment and item lookup) is missing from the source files. The specification
  describes an instance as "a named collection of property-name-to-typed-value mappings,
  with case-insensitive property-name lookup". The name is the class name; the
  collection is a dictionary keyed by the lower-cased property name, which keeps the
  spelling used at assignment beside the value. The type of values is left open.
\<close>

record 'v CIMInstance =
  classname :: string
  properties :: "string \<rightharpoonup> string \<times> 'v"

definition CIMInstance_init :: "string \<Rightarrow> 'v CIMInstance" where
  "CIMInstance_init cn = \<lparr>classname = cn, properties = Map.empty\<rparr>"

definition setitem :: "'v CIMInstance \<Rightarrow> string \<Rightarrow> 'v \<Rightarrow> 'v CIMInstance" where
  "setitem inst k v = inst\<lparr>properties := (properties inst)(lower k \<mapsto> (k, v))\<rparr>"

definition getitem :: "'v CIMInstance \<Rightarrow> string \<Rightarrow> py_error + 'v" where
  "getitem inst k =
     (case properties inst (lower k) of
        None \<Rightarrow> Inl (KeyError k)
      | Some (_, v) \<Rightarrow> Inr v)"

text \<open>The instance the notebook cell builds, and the value its last line prints.\<close>

definition cell_inst :: "string CIMInstance" where
  "cell_inst =
     setitem (setitem (CIMInstance_init ''CIM_Person'') ''Firstname'' ''Tim'')
       ''Lastname'' ''Potter''"

definition cell_print :: "py_error + string" where
  "cell_print = getitem cell_inst ''firstname''"

section \<open>Commands, their outcomes and the machine they run on\<close>

text \<open>
  Both scripts are lists of shell commands. What a command such as \<^verbatim>\<open>dh_testdir\<close> or
  \<^verbatim>\<open>make test\<close> does is decided outside the repository, so the machine is a
  parameter: \<open>exec\<close> runs one command in a state of the machine and gives back
  whether it exited with status zero, and the new state; \<open>file_exists\<close> and
  \<open>newer\<close> are the two questions \<^verbatim>\<open>make\<close> asks about files. An event
  records one executed command with its outcome; a trace is the list of events of a run,
  in the order of execution.
\<close>

type_synonym event = "string \<times> bool"

record 'w system =
  exec :: "string \<Rightarrow> 'w \<Rightarrow> bool \<times> 'w"
  file_exists :: "'w \<Rightarrow> string \<Rightarrow> bool"
  newer :: "'w \<Rightarrow> string \<Rightarrow> string \<Rightarrow> bool"

text \<open>
  The commands of the CI control file are simple commands, with one exception: the line
  \<^verbatim>\<open>if [[ $TRAVIS_PYTHON_VERSION == 2.7 ]]; then coveralls; fi\<close>.
  \<open>IfVarEq x lit body\<close> stands for \<^verbatim>\<open>if [[ $x == lit ]]; then body; fi\<close>
  where \<open>lit\<close> has no pattern character, so that the test is string equality. The
  commands of \<open>body\<close> run one after the other and the status of the last one is
  the status of the whole; when the test fails nothing runs and the status is zero.
\<close>

datatype sh = Simple string | IfVarEq string string "string list"

fun commands_of :: "sh \<Rightarrow> string list" where
  "commands_of (Simple c) = [c]"
| "commands_of (IfVarEq x lit body) = body"

fun run_body :: "'w system \<Rightarrow> string list \<Rightarrow> 'w \<Rightarrow> bool \<times> event list \<times> 'w" where
  "run_body sys [] w = (True, [], w)"
| "run_body sys (c # cs) w =
     (case exec sys c w of (ok, w') \<Rightarrow>
        if cs = [] then (ok, [(c, ok)], w')
        else (case run_body sys cs w' of (ok', tr, w'') \<Rightarrow> (ok', (c, ok) # tr, w'')))"

fun run_sh :: "'w system \<Rightarrow> (string \<Rightarrow> string) \<Rightarrow> sh \<Rightarrow> 'w \<Rightarrow> bool \<times> event list \<times> 'w" where
  "run_sh sys env (Simple c) w = (case exec sys c w of (ok, w') \<Rightarrow> (ok, [(c, ok)], w'))"
| "run_sh sys env (IfVarEq x lit body) w =
     (if env x = lit then run_body sys body w else (True, [], w))"

section \<open>The CI control file\<close>

text \<open>The file \<^verbatim>\<open>.travis.yml\<close>, key by key.\<close>

record travis_config =
  sudo :: string
  language :: string
  python :: "string list"
  install :: "sh list"
  script :: "sh list"
  after_success :: "sh list"

definition travis_yml :: travis_config where
  \<open>travis_yml = \<lparr>
     sudo = ''required'',
     language = ''python'',
     python = [''2.6'', ''2.7'', ''3.4'', ''3.5'', ''3.6''],
     install = [
       Simple ''python -c "import platform; print('Demonstration of incorrect distro returned by platform.linux_distribution():'); print(repr(platform.linux_distribution()))"'',
       Simple ''python -c "import pip, os; print('Site-packages directory of system Python:'); print(os.path.dirname(os.path.dirname(pip.__file__)))"'',
       Simple ''pip list'',
       Simple ''pip install --upgrade pip'',
       Simple ''python uninstall_pbr_on_py26.py'',
       Simple ''make clobber'',
       Simple ''pip list'',
       Simple ''make develop'',
       Simple ''pip install python-coveralls'',
       Simple ''pip list''],
     script = [
       Simple ''make check'',
       Simple ''make build'',
       Simple ''make builddoc'',
       Simple ''make test''],
     after_success = [
       IfVarEq ''TRAVIS_PYTHON_VERSION'' ''2.7'' [''coveralls'']]\<rparr>\<close>

text \<open>
  The control file only lists commands; the CI service runs them. Its job lifecycle is:
  one job per entry of \<^verbatim>\<open>python\<close>, each on a machine of its own, with the
  entry as the value of \<^verbatim>\<open>TRAVIS_PYTHON_VERSION\<close>. In a job,
  \<^item> the commands of \<^verbatim>\<open>install\<close> run in order and the first one that fails
    stops the job at once, with the result "errored" (\<open>run_abort\<close>);
  \<^item> the commands of \<^verbatim>\<open>script\<close> all run, in order, also after one of them has
    failed; the job is "failed" when any of them failed (\<open>run_all\<close>);
  \<^item> the commands of \<^verbatim>\<open>after_success\<close> run only when no command of
    \<^verbatim>\<open>script\<close> failed; their own exit statuses do not change the result.
\<close>

fun run_abort :: "'w system \<Rightarrow> (string \<Rightarrow> string) \<Rightarrow> sh list \<Rightarrow> 'w \<Rightarrow> bool \<times> event list \<times> 'w" where
  "run_abort sys env [] w = (True, [], w)"
| "run_abort sys env (c # cs) w =
     (case run_sh sys env c w of (ok, tr, w') \<Rightarrow>
        if ok then (case run_abort sys env cs w' of (ok', tr', w'') \<Rightarrow> (ok', tr @ tr', w''))
        else (False, tr, w'))"

fun run_all :: "'w system \<Rightarrow> (string \<Rightarrow> string) \<Rightarrow> sh list \<Rightarrow> 'w \<Rightarrow> bool \<times> event list \<times> 'w" where
  "run_all sys env [] w = (True, [], w)"
| "run_all sys env (c # cs) w =
     (case run_sh sys env c w of (ok, tr, w') \<Rightarrow>
        (case run_all sys env cs w' of (ok', tr', w'') \<Rightarrow> (ok \<and> ok', tr @ tr', w'')))"

datatype job_result = Passed | Failed | Errored

definition travis_env :: "string \<Rightarrow> string \<Rightarrow> string" where
  "travis_env v x = (if x = ''TRAVIS_PYTHON_VERSION'' then v else [])"

definition run_job :: "'w system \<Rightarrow> travis_config \<Rightarrow> string \<Rightarrow> 'w \<Rightarrow> job_result \<times> event list \<times> 'w" where
  "run_job sys cfg v w =
     (case run_abort sys (travis_env v) (install cfg) w of (ok1, tr1, w1) \<Rightarrow>
        if \<not> ok1 then (Errored, tr1, w1)
        else (case run_all sys (travis_env v) (script cfg) w1 of (ok2, tr2, w2) \<Rightarrow>
          if \<not> ok2 then (Failed, tr1 @ tr2, w2)
          else (case run_all sys (travis_env v) (after_success cfg) w2 of (ok3, tr3, w3) \<Rightarrow>
            (Passed, tr1 @ tr2 @ tr3, w3))))"

text \<open>
  The phases of the pipeline, numbered in the order the specification names them:
  install dependencies (0), run checks (1), build (2, the package and its documentation),
  run tests (3), report coverage (4).
\<close>

definition phase :: "string \<Rightarrow> nat" where
  "phase c =
     (if c = ''make check'' then 1
      else if c = ''make build'' \<or> c = ''make builddoc'' then 2
      else if c = ''make test'' then 3
      else if c = ''coveralls'' then 4
      else 0)"

text \<open>All commands the control file lists, in the order of the file.\<close>

definition pipeline :: "travis_config \<Rightarrow> string list" where
  "pipeline cfg = concat (map commands_of (install cfg @ script cfg @ after_success cfg))"

section \<open>The packaging script\<close>

text \<open>
  The file \<^verbatim>\<open>packaging/debian/rules\<close> is a makefile. A recipe line is a command,
  prefixed with \<^verbatim>\<open>-\<close> when a failure of the command is to be ignored. A rule has a
  target, prerequisites and a recipe; the makefile is its rules and the targets declared
  \<^verbatim>\<open>.PHONY\<close>.
\<close>

record recipe_line =
  ignore_errors :: bool
  command :: string

definition cmd :: "string \<Rightarrow> recipe_line" where
  "cmd c = \<lparr>ignore_errors = False, command = c\<rparr>"

definition dash :: "string \<Rightarrow> recipe_line" where
  "dash c = \<lparr>ignore_errors = True, command = c\<rparr>"

record rule =
  target :: string
  prereqs :: "string list"
  recipe :: "recipe_line list"

text \<open>
  A variable assignment with \<^verbatim>\<open>:=\<close> is expanded when make reads the file. Its
  right-hand side is text with references \<^verbatim>\<open>$(NAME)\<close> to variables set before;
  \<open>AssignShell\<close> stands for a right-hand side of the form
  \<^verbatim>\<open>$(shell text)\<close>, which makes make run the expanded text as a command.
\<close>

datatype frag = Lit string | Ref string

datatype assignment = Assign string "frag list" | AssignShell string "frag list"

record makefile =
  assignments :: "assignment list"
  rules :: "rule list"
  phony :: "string list"

text \<open>
  The file, in its order: the two assignments at its head (lines 12 and 13), the rules
  and the \<^verbatim>\<open>.PHONY\<close> line. \<open>curdir\<close> is the value of make's variable
  \<^verbatim>\<open>CURDIR\<close>, the directory make runs in. The \<^verbatim>\<open>install\<close> command is written
  on two lines joined by a backslash; trailing blanks of a line are dropped. The recipe
  of \<^verbatim>\<open>build-stamp\<close> has the line \<^verbatim>\<open>touch build-stamp\<close> twice. The command of
  the \<^verbatim>\<open>PYVER\<close> assignment ends in a single quote, written \<open>CHR 0x27\<close>.
\<close>

definition debian_rules :: "string \<Rightarrow> makefile" where
  "debian_rules curdir = \<lparr>
     assignments = [
       Assign ''PYTHON'' [Lit ''/usr/bin/python''],
       AssignShell ''PYVER''
         [Ref ''PYTHON'', Lit ('' -c 'import sys; print sys.version[:3]'' @ [CHR 0x27])]],
     rules = [
       \<lparr>target = ''build'', prereqs = [''build-stamp''], recipe = []\<rparr>,
       \<lparr>target = ''build-stamp'', prereqs = [], recipe = [
          cmd ''dh_testdir'',
          cmd ''python setup.py build'',
          cmd ''touch build-stamp'',
          cmd ''touch build-stamp'']\<rparr>,
       \<lparr>target = ''clean'', prereqs = [], recipe = [
          cmd ''dh_testdir'',
          cmd ''dh_testroot'',
          cmd ''rm -rf build-stamp build'',
          dash ''find . -name '*.py[co]' | xargs rm -f'',
          cmd ''dh_clean'']\<rparr>,
       \<lparr>target = ''install'', prereqs = [''build''], recipe = [
          cmd ''dh_testdir'',
          cmd ''dh_testroot'',
          cmd ''dh_clean -k'',
          cmd ''dh_installdirs'',
          cmd (''python setup.py install --root='' @ curdir @ ''/debian/python-pywbem'')]\<rparr>,
       \<lparr>target = ''binary-indep'', prereqs = [''build'', ''install''], recipe = [
          cmd ''dh_testdir'',
          cmd ''dh_testroot'',
          cmd ''dh_installdocs -i README'',
          cmd ''dh_installchangelogs -i'',
          cmd ''dh_compress -i'',
          cmd ''dh_fixperms -i'',
          cmd ''dh_pycentral -i'',
          cmd ''dh_installdeb -i'',
          cmd ''dh_gencontrol -i'',
          cmd ''dh_md5sums -i'',
          cmd ''dh_builddeb -i'']\<rparr>,
       \<lparr>target = ''binary-arch'', prereqs = [''build'', ''install''], recipe = [
          cmd ''dh_testdir'',
          cmd ''dh_testroot'',
          cmd ''dh_installdocs -a -A README'',
          cmd ''dh_installchangelogs -a'',
          cmd ''dh_strip -a'',
          cmd ''dh_compress -a'',
          cmd ''dh_fixperms -a'',
          cmd ''dh_pycentral -a'',
          cmd ''dh_installdeb -a'',
          cmd ''dh_shlibdeps -a'',
          cmd ''dh_gencontrol -a'',
          cmd ''dh_md5sums -a'',
          cmd ''dh_builddeb -a'']\<rparr>,
       \<lparr>target = ''binary'', prereqs = [''binary-indep'', ''binary-arch''], recipe = []\<rparr>],
     phony = [''build'', ''clean'', ''binary-indep'', ''binary-arch'', ''binary'', ''install'']\<rparr>"

text \<open>
  How make runs a recipe: line by line, each line in a shell of its own. A line that
  fails ends the recipe, and the whole run, unless it carries the \<^verbatim>\<open>-\<close> prefix.
\<close>

fun run_recipe :: "'w system \<Rightarrow> recipe_line list \<Rightarrow> 'w \<Rightarrow> bool \<times> event list \<times> 'w" where
  "run_recipe sys [] w = (True, [], w)"
| "run_recipe sys (l # ls) w =
     (case exec sys (command l) w of (ok, w') \<Rightarrow>
        if ok \<or> ignore_errors l
        then (case run_recipe sys ls w' of (ok', tr, w'') \<Rightarrow> (ok', (command l, ok) # tr, w''))
        else (False, [(command l, False)], w'))"

definition find_rule :: "makefile \<Rightarrow> string \<Rightarrow> rule option" where
  "find_rule mf t = find (\<lambda>r. target r = t) (rules mf)"

text \<open>
  A target is remade when it is phony, when its file is missing, or when a prerequisite
  is phony or newer than it.
\<close>

definition out_of_date :: "'w system \<Rightarrow> makefile \<Rightarrow> rule \<Rightarrow> 'w \<Rightarrow> bool" where
  "out_of_date sys mf r w =
     (target r \<in> set (phony mf) \<or> \<not> file_exists sys w (target r) \<or>
      (\<exists>p \<in> set (prereqs r). p \<in> set (phony mf) \<or> newer sys w p (target r)))"

text \<open>
  How make brings a list of targets up to date, one after the other (no \<^verbatim>\<open>-k\<close>,
  no \<^verbatim>\<open>-j\<close>). \<open>stack\<close> holds the targets whose prerequisites are being made: a
  prerequisite found there is a circular dependency, which make drops. \<open>made\<close>
  holds the targets already considered in this run: make considers a target once. A
  target with no rule is fine when its file exists and an error otherwise. For a target
  with a rule, the prerequisites come first, in the order written, then the recipe when
  the target is out of date; the first failure ends the run.
\<close>

function update :: "'w system \<Rightarrow> makefile \<Rightarrow> string list \<Rightarrow> string list \<Rightarrow> 'w \<Rightarrow> string list
    \<Rightarrow> bool \<times> event list \<times> 'w \<times> string list" where
  "update sys mf stack [] w made = (True, [], w, made)"
| "update sys mf stack (t # ts) w made =
     (if t \<in> set stack \<or> t \<in> set made then update sys mf stack ts w made
      else (case find_rule mf t of
        None \<Rightarrow>
          if file_exists sys w t then update sys mf stack ts w (t # made)
          else (False, [], w, made)
      | Some r \<Rightarrow>
          (case update sys mf (t # stack) (prereqs r) w made of (ok1, tr1, w1, made1) \<Rightarrow>
             if \<not> ok1 then (False, tr1, w1, made1)
             else if \<not> out_of_date sys mf r w1
               then (case update sys mf stack ts w1 (t # made1) of (ok3, tr3, w3, made3) \<Rightarrow>
                       (ok3, tr1 @ tr3, w3, made3))
             else (case run_recipe sys (recipe r) w1 of (ok2, tr2, w2) \<Rightarrow>
               if \<not> ok2 then (False, tr1 @ tr2, w2, made1)
               else (case update sys mf stack ts w2 (t # made1) of (ok3, tr3, w3, made3) \<Rightarrow>
                       (ok3, tr1 @ tr2 @ tr3, w3, made3))))))"
  by pat_completeness auto
termination
proof (relation "inv_image (less_than <*lex*> less_than)
     (\<lambda>(sys, mf, stack, ts, w, made).
        (card (set (map target (rules mf)) - set stack), length ts))", goal_cases)
  case 1
  show ?case by (intro wf_inv_image wf_lex_prod wf_less_than)
next
  case (2 sys mf stack t ts w made)
  then show ?case by simp
next
  case (3 sys mf stack t ts w made)
  then show ?case by simp
next
  case (4 sys mf stack t ts w made r)
  from \<open>find_rule mf t = Some r\<close> have "t \<in> target ` set (rules mf)"
    unfolding find_rule_def by (auto simp: find_Some_iff)
  moreover from 4 have "t \<notin> set stack" by simp
  ultimately have "target ` set (rules mf) - insert t (set stack)
      \<subset> target ` set (rules mf) - set stack"
    by blast
  then have "card (target ` set (rules mf) - insert t (set stack))
      < card (target ` set (rules mf) - set stack)"
    by (intro psubset_card_mono) simp_all
  then show ?case by simp
next
  case 5
  then show ?case by simp
next
  case 6
  then show ?case by simp
qed

text \<open>
  The goal phase of an invocation of make: bringing the goals of the command line up to
  date, once the file has been read. Its trace holds the commands of recipes.
\<close>

definition run_make :: "'w system \<Rightarrow> makefile \<Rightarrow> string list \<Rightarrow> 'w \<Rightarrow> bool \<times> event list \<times> 'w" where
  "run_make sys mf goals w =
     (case update sys mf [] goals w [] of (ok, tr, w', made) \<Rightarrow> (ok, tr, w'))"

text \<open>
  Reading the file: the assignments are expanded in order. A reference to a variable
  that is not set expands to nothing. The command of a \<^verbatim>\<open>$(shell ...)\<close> call is run
  on the spot; make takes its output as the value and does not look at its exit status.
  The model keeps no value for such a variable: \<^verbatim>\<open>PYVER\<close> is used nowhere in the
  file.
\<close>

definition expand :: "(string \<times> string) list \<Rightarrow> frag list \<Rightarrow> string" where
  "expand vars fs =
     concat (map (\<lambda>f. case f of
        Lit s \<Rightarrow> s
      | Ref x \<Rightarrow> (case map_of vars x of None \<Rightarrow> [] | Some v \<Rightarrow> v)) fs)"

fun run_assignments :: "'w system \<Rightarrow> assignment list \<Rightarrow> (string \<times> string) list \<Rightarrow> 'w
    \<Rightarrow> event list \<times> 'w" where
  "run_assignments sys [] vars w = ([], w)"
| "run_assignments sys (Assign x fs # as) vars w =
     run_assignments sys as ((x, expand vars fs) # vars) w"
| "run_assignments sys (AssignShell x fs # as) vars w =
     (case exec sys (expand vars fs) w of (ok, w1) \<Rightarrow>
        (case run_assignments sys as vars w1 of (tr, w') \<Rightarrow> ((expand vars fs, ok) # tr, w')))"

text \<open>
  One whole invocation of make on the packaging script, with the goals of its command
  line: the file is read, then the goals are made. The trace holds every command the
  invocation executes.
\<close>

definition invoke_make :: "'w system \<Rightarrow> makefile \<Rightarrow> string list \<Rightarrow> 'w \<Rightarrow> bool \<times> event list \<times> 'w" where
  "invoke_make sys mf goals w =
     (case run_assignments sys (assignments mf) [] w of (tr0, w0) \<Rightarrow>
        (case run_make sys mf goals w0 of (ok, tr, w') \<Rightarrow> (ok, tr0 @ tr, w')))"

text \<open>The command the \<^verbatim>\<open>PYVER\<close> assignment runs, after expansion.\<close>

definition pyver_call :: string where
  "pyver_call = ''/usr/bin/python -c 'import sys; print sys.version[:3]'' @ [CHR 0x27]"

text \<open>
  The recipe the makefile gives for a target, and the targets of the packaging script.
\<close>

definition recipe_of :: "makefile \<Rightarrow> string \<Rightarrow> recipe_line list" where
  "recipe_of mf t = (case find_rule mf t of None \<Rightarrow> [] | Some r \<Rightarrow> recipe r)"

definition debian_goals :: "string list" where
  "debian_goals = [''build'', ''build-stamp'', ''clean'', ''install'', ''binary-indep'',
     ''binary-arch'', ''binary'']"

text \<open>
  A summary of what \<open>run_make\<close> does for one goal of the packaging script, proved
  below (\<open>run_make_plan\<close>): every goal but \<^verbatim>\<open>clean\<close> first runs the recipe of
  \<^verbatim>\<open>build-stamp\<close> unless the stamp file exists, then the recipes of the phony
  targets it depends on, in the order of \<open>targets_run\<close>, as one sequence that the
  first fatal failure ends.
\<close>

definition targets_run :: "string \<Rightarrow> string list" where
  "targets_run g =
     (if g = ''clean'' then [''clean'']
      else if g = ''install'' then [''install'']
      else if g = ''binary-indep'' then [''install'', ''binary-indep'']
      else if g = ''binary-arch'' then [''install'', ''binary-arch'']
      else if g = ''binary'' then [''install'', ''binary-indep'', ''binary-arch'']
      else [])"

definition plan :: "makefile \<Rightarrow> string \<Rightarrow> bool \<Rightarrow> recipe_line list" where
  "plan mf g stamp =
     (if g = ''clean'' \<or> stamp then [] else recipe_of mf ''build-stamp'')
       @ concat (map (recipe_of mf) (targets_run g))"

text \<open>
  The goals that build binary packages, the package-assembly commands of their recipes,
  the command of the \<^verbatim>\<open>install\<close> recipe that writes the staging root, and the
  events of an \<^verbatim>\<open>install\<close> recipe that ran to its end.
\<close>

definition binary_goals :: "string list" where
  "binary_goals = [''binary'', ''binary-indep'', ''binary-arch'']"

definition assembly :: "string set" where
  "assembly = {''dh_builddeb -i'', ''dh_builddeb -a''}"

definition install_cmd :: "string \<Rightarrow> string" where
  "install_cmd d = ''python setup.py install --root='' @ d @ ''/debian/python-pywbem''"

definition installed :: "string \<Rightarrow> event list" where
  "installed d = map (\<lambda>l. (command l, True)) (recipe_of (debian_rules d) ''install'')"

text \<open>
  What is expected of \<^verbatim>\<open>touch\<close> on a machine: when it succeeds, the file exists.
\<close>

definition touch_creates :: "'w system \<Rightarrow> bool" where
  "touch_creates sys =
     (\<forall>w w'. exec sys ''touch build-stamp'' w = (True, w') \<longrightarrow> file_exists sys w' ''build-stamp'')"

text \<open>
  The commands of \<^verbatim>\<open>install\<close> and \<^verbatim>\<open>script\<close>, in the order of the file, and
  the commands of a recipe whose failure make ignores (the lines with the
  \<^verbatim>\<open>-\<close> prefix).
\<close>

definition install_and_script :: "travis_config \<Rightarrow> string list" where
  "install_and_script cfg = concat (map commands_of (install cfg @ script cfg))"

definition ignored :: "recipe_line list \<Rightarrow> string list" where
  "ignored ls = map command (filter ignore_errors ls)"

text \<open>
  A small machine to run the scripts on: its state is the list of the files that exist;
  the commands of \<open>failing\<close> fail and change nothing, \<^verbatim>\<open>touch build-stamp\<close>
  creates the stamp file, \<^verbatim>\<open>rm -rf build-stamp build\<close> removes it, and every other
  command succeeds.
\<close>

definition sim :: "string list \<Rightarrow> (string list) system" where
  "sim failing = \<lparr>
     exec = (\<lambda>c w.
       if c \<in> set failing then (False, w)
       else if c = ''touch build-stamp'' then (True, List.insert ''build-stamp'' w)
       else if c = ''rm -rf build-stamp build'' then (True, removeAll ''build-stamp'' w)
       else (True, w)),
     file_exists = (\<lambda>w f. f \<in> set w),
     newer = (\<lambda>w p t. False)\<rparr>"

section \<open>Properties of the data model\<close>

lemma to_lower_idem: "to_lower (to_lower c) = to_lower c"
proof (cases "is_upper c")
  case True
  then have "of_char (char_of (of_char c + 32 :: nat)) = (of_char c + 32 :: nat)"
    by (simp add: is_upper_def)
  with True have "\<not> is_upper (to_lower c)"
    by (simp add: to_lower_def is_upper_def)
  then show ?thesis by (simp add: to_lower_def)
next
  case False
  then show ?thesis by (simp add: to_lower_def)
qed

lemma case_variant_to_lower: "case_variant c d \<Longrightarrow> to_lower c = to_lower d"
  unfolding case_variant_def
  by (auto simp: to_lower_idem)

lemma differs_only_in_case_lower: "differs_only_in_case k k' \<Longrightarrow> lower k = lower k'"
  unfolding differs_only_in_case_def lower_def
  by (induction k k' rule: list_all2_induct) (simp_all add: case_variant_to_lower)

lemma cell_print_value: "cell_print = Inr ''Tim''"
  unfolding cell_print_def cell_inst_def by code_simp

text \<open>
  C1. Property-name lookup on an instance is case-insensitive regardless of the case used
  at assignment: after a value is assigned under one spelling of a property name, reading
  the property under any spelling that differs from it only in letter case returns the
  assigned value.
\<close>

theorem getitem_setitem_nocase:
  "differs_only_in_case k k' \<Longrightarrow> getitem (setitem inst k v) k' = Inr v"
  by (simp add: getitem_def setitem_def differs_only_in_case_lower)

theorem getitem_setitem_nocase_witness:
  "differs_only_in_case ''Firstname'' ''firstname'' \<and>
   getitem (setitem (CIMInstance_init ''CIM_Person'') ''Firstname'' ''Tim'') ''firstname''
     = Inr ''Tim''"
proof -
  have h: "differs_only_in_case ''Firstname'' ''firstname''"
    unfolding differs_only_in_case_def by code_simp
  show ?thesis
    using h getitem_setitem_nocase [OF h, of "CIMInstance_init ''CIM_Person''" "''Tim''"]
    by simp
qed

section \<open>Properties of the CI control file\<close>

lemma run_body_cmds: "run_body sys cs w = (ok, tr, w') \<Longrightarrow> map fst tr = cs"
  by (induction cs arbitrary: w ok tr w') (auto split: prod.splits if_splits)

lemma run_sh_subseq: "run_sh sys env c w = (ok, tr, w') \<Longrightarrow> subseq (map fst tr) (commands_of c)"
  by (cases c) (auto split: prod.splits if_splits dest: run_body_cmds)

lemma run_abort_subseq:
  "run_abort sys env cs w = (ok, tr, w') \<Longrightarrow> subseq (map fst tr) (concat (map commands_of cs))"
proof (induction cs arbitrary: w ok tr w')
  case Nil
  then show ?case by simp
next
  case (Cons c cs)
  obtain ok1 tr1 w1 where c: "run_sh sys env c w = (ok1, tr1, w1)"
    by (cases "run_sh sys env c w") auto
  note h = run_sh_subseq [OF c]
  show ?case
  proof (cases ok1)
    case True
    obtain ok2 tr2 w2 where r: "run_abort sys env cs w1 = (ok2, tr2, w2)"
      by (cases "run_abort sys env cs w1") auto
    from Cons.prems c True r have "tr = tr1 @ tr2" by simp
    with h Cons.IH [OF r] show ?thesis by (simp add: list_emb_append_mono)
  next
    case False
    with Cons.prems c have "tr = tr1" by simp
    with h show ?thesis by (simp add: list_emb_prefix)
  qed
qed

lemma run_all_subseq:
  "run_all sys env cs w = (ok, tr, w') \<Longrightarrow> subseq (map fst tr) (concat (map commands_of cs))"
proof (induction cs arbitrary: w ok tr w')
  case Nil
  then show ?case by simp
next
  case (Cons c cs)
  obtain ok1 tr1 w1 where c: "run_sh sys env c w = (ok1, tr1, w1)"
    by (cases "run_sh sys env c w") auto
  obtain ok2 tr2 w2 where r: "run_all sys env cs w1 = (ok2, tr2, w2)"
    by (cases "run_all sys env cs w1") auto
  from Cons.prems c r have "tr = tr1 @ tr2" by simp
  with run_sh_subseq [OF c] Cons.IH [OF r] show ?case by (simp add: list_emb_append_mono)
qed

lemma run_job_subseq:
  assumes "run_job sys cfg v w = (res, tr, w')"
  shows "subseq (map fst tr) (pipeline cfg)"
proof -
  obtain ok1 tr1 w1 where a: "run_abort sys (travis_env v) (install cfg) w = (ok1, tr1, w1)"
    by (cases "run_abort sys (travis_env v) (install cfg) w") auto
  obtain ok2 tr2 w2 where b: "run_all sys (travis_env v) (script cfg) w1 = (ok2, tr2, w2)"
    by (cases "run_all sys (travis_env v) (script cfg) w1") auto
  obtain ok3 tr3 w3 where c: "run_all sys (travis_env v) (after_success cfg) w2 = (ok3, tr3, w3)"
    by (cases "run_all sys (travis_env v) (after_success cfg) w2") auto
  have s1: "subseq (map fst tr1) (concat (map commands_of (install cfg)))"
    by (rule run_abort_subseq [OF a])
  have s2: "subseq (map fst tr2) (concat (map commands_of (script cfg)))"
    by (rule run_all_subseq [OF b])
  have s3: "subseq (map fst tr3) (concat (map commands_of (after_success cfg)))"
    by (rule run_all_subseq [OF c])
  have e: "subseq [] (concat (map commands_of (after_success cfg)))" by simp
  from assms a b c have "tr = tr1 \<or> tr = tr1 @ tr2 \<or> tr = tr1 @ tr2 @ tr3"
    by (auto simp: run_job_def split: if_splits)
  then show ?thesis
  proof (elim disjE)
    assume "tr = tr1"
    then have "map fst tr = map fst tr1 @ [] @ []" by simp
    also have "subseq \<dots> (pipeline cfg)"
      unfolding pipeline_def map_append concat_append
      by (intro list_emb_append_mono s1) simp_all
    finally show ?thesis .
  next
    assume "tr = tr1 @ tr2"
    then have "map fst tr = map fst tr1 @ map fst tr2 @ []" by simp
    also have "subseq \<dots> (pipeline cfg)"
      unfolding pipeline_def map_append concat_append
      by (intro list_emb_append_mono s1 s2) simp
    finally show ?thesis .
  next
    assume "tr = tr1 @ tr2 @ tr3"
    then have "map fst tr = map fst tr1 @ map fst tr2 @ map fst tr3" by simp
    also have "subseq \<dots> (pipeline cfg)"
      unfolding pipeline_def map_append concat_append
      by (intro list_emb_append_mono s1 s2 s3)
    finally show ?thesis .
  qed
qed

lemma subseq_set: "subseq xs ys \<Longrightarrow> set xs \<subseteq> set ys"
  by (auto elim: list_emb_set)

lemma sorted_wrt_subseq: "subseq xs ys \<Longrightarrow> sorted_wrt P ys \<Longrightarrow> sorted_wrt P xs"
proof (induction rule: list_emb.induct)
  case (list_emb_Nil ys)
  then show ?case by simp
next
  case (list_emb_Cons xs ys y)
  then show ?case by simp
next
  case (list_emb_Cons2 x y xs ys)
  then have "set xs \<subseteq> set ys" by (auto dest: subseq_set)
  with list_emb_Cons2 show ?case by auto
qed

lemma pipeline_phases:
  "map phase (pipeline travis_yml) = [0, 0, 0, 0, 0, 0, 0, 0, 0, 0, 1, 2, 2, 3, 4]"
  by (simp add: pipeline_def travis_yml_def phase_def)

lemma run_job_cases:
  assumes "run_job sys cfg v w = (res, tr, w')"
  obtains
    (errored) tr1 w1 where
      "run_abort sys (travis_env v) (install cfg) w = (False, tr1, w1)"
      "res = Errored" "tr = tr1" "w' = w1"
  | (failed) tr1 w1 tr2 w2 where
      "run_abort sys (travis_env v) (install cfg) w = (True, tr1, w1)"
      "run_all sys (travis_env v) (script cfg) w1 = (False, tr2, w2)"
      "res = Failed" "tr = tr1 @ tr2" "w' = w2"
  | (passed) tr1 w1 tr2 w2 ok3 tr3 w3 where
      "run_abort sys (travis_env v) (install cfg) w = (True, tr1, w1)"
      "run_all sys (travis_env v) (script cfg) w1 = (True, tr2, w2)"
      "run_all sys (travis_env v) (after_success cfg) w2 = (ok3, tr3, w3)"
      "res = Passed" "tr = tr1 @ tr2 @ tr3" "w' = w3"
  using assms unfolding run_job_def
  by (auto split: prod.splits if_splits)

lemma coveralls_not_before:
  "''coveralls'' \<notin> set (concat (map commands_of (install travis_yml)))"
  "''coveralls'' \<notin> set (concat (map commands_of (script travis_yml)))"
  by (simp_all add: travis_yml_def)

lemma after_success_trace:
  "run_all sys (travis_env v) (after_success travis_yml) w = (ok, tr, w') \<Longrightarrow>
   map fst tr = (if v = ''2.7'' then [''coveralls''] else [])"
  by (auto simp: travis_yml_def travis_env_def split: prod.splits if_splits)

lemma coveralls_iff:
  assumes "run_job sys travis_yml v w = (res, tr, w')"
  shows "(''coveralls'' \<in> set (map fst tr)) = (res = Passed \<and> v = ''2.7'')"
  using assms
proof (cases rule: run_job_cases)
  case (errored tr1 w1)
  from run_abort_subseq [OF errored(1)] coveralls_not_before(1)
  have "''coveralls'' \<notin> set (map fst tr1)" by (blast dest: subseq_set)
  with errored show ?thesis by simp
next
  case (failed tr1 w1 tr2 w2)
  from run_abort_subseq [OF failed(1)] coveralls_not_before(1)
  have "''coveralls'' \<notin> set (map fst tr1)" by (blast dest: subseq_set)
  moreover from run_all_subseq [OF failed(2)] coveralls_not_before(2)
  have "''coveralls'' \<notin> set (map fst tr2)" by (blast dest: subseq_set)
  ultimately show ?thesis using failed by simp
next
  case (passed tr1 w1 tr2 w2 ok3 tr3 w3)
  from run_abort_subseq [OF passed(1)] coveralls_not_before(1)
  have "''coveralls'' \<notin> set (map fst tr1)" by (blast dest: subseq_set)
  moreover from run_all_subseq [OF passed(2)] coveralls_not_before(2)
  have "''coveralls'' \<notin> set (map fst tr2)" by (blast dest: subseq_set)
  moreover note after_success_trace [OF passed(3)]
  ultimately show ?thesis using passed by (simp del: set_map)
qed

lemma run_job_collapse:
  "run_job sys cfg v w =
     (fst (run_job sys cfg v w), fst (snd (run_job sys cfg v w)), snd (snd (run_job sys cfg v w)))"
  by simp

lemma all_green_passed: "fst (run_job (sim []) travis_yml ''2.7'' []) = Passed"
  by (simp add: run_job_def travis_yml_def travis_env_def sim_def)

text \<open>
  C3. Coverage is reported for one designated interpreter version only. The
  \<^verbatim>\<open>coveralls\<close> command stands in \<^verbatim>\<open>after_success\<close>, which runs in a job that
  passed its \<^verbatim>\<open>script\<close> commands: there it runs if and only if the Python version
  of the job is 2.7. In any job, whatever its outcome, \<^verbatim>\<open>coveralls\<close> runs only on
  2.7, and for every other version of the build matrix it does not run.
\<close>

theorem coverage_only_on_2_7:
  assumes "run_job sys travis_yml v w = (res, tr, w')"
  shows "(res = Passed \<longrightarrow> (''coveralls'' \<in> set (map fst tr) \<longleftrightarrow> v = ''2.7'')) \<and>
         (''coveralls'' \<in> set (map fst tr) \<longrightarrow> v = ''2.7'') \<and>
         (v \<in> set (python travis_yml) \<and> v \<noteq> ''2.7'' \<longrightarrow> ''coveralls'' \<notin> set (map fst tr))"
  using coveralls_iff [OF assms] by blast

theorem coverage_only_on_2_7_witness:
  "fst (run_job (sim []) travis_yml ''2.7'' []) = Passed \<and>
   ''coveralls'' \<in> set (map fst (fst (snd (run_job (sim []) travis_yml ''2.7'' []))))"
  using coverage_only_on_2_7 [OF run_job_collapse, of "sim []" "''2.7''" "[]"] all_green_passed
  by blast

section \<open>Properties of the packaging script\<close>

lemma find_rule_debian:
  "find_rule (debian_rules d) ''build'' =
     Some \<lparr>target = ''build'', prereqs = [''build-stamp''], recipe = []\<rparr>"
  "find_rule (debian_rules d) ''build-stamp'' =
     Some \<lparr>target = ''build-stamp'', prereqs = [],
       recipe = recipe_of (debian_rules d) ''build-stamp''\<rparr>"
  "find_rule (debian_rules d) ''clean'' =
     Some \<lparr>target = ''clean'', prereqs = [], recipe = recipe_of (debian_rules d) ''clean''\<rparr>"
  "find_rule (debian_rules d) ''install'' =
     Some \<lparr>target = ''install'', prereqs = [''build''],
       recipe = recipe_of (debian_rules d) ''install''\<rparr>"
  "find_rule (debian_rules d) ''binary-indep'' =
     Some \<lparr>target = ''binary-indep'', prereqs = [''build'', ''install''],
       recipe = recipe_of (debian_rules d) ''binary-indep''\<rparr>"
  "find_rule (debian_rules d) ''binary-arch'' =
     Some \<lparr>target = ''binary-arch'', prereqs = [''build'', ''install''],
       recipe = recipe_of (debian_rules d) ''binary-arch''\<rparr>"
  "find_rule (debian_rules d) ''binary'' =
     Some \<lparr>target = ''binary'', prereqs = [''binary-indep'', ''binary-arch''], recipe = []\<rparr>"
  by (simp_all add: recipe_of_def find_rule_def debian_rules_def)

lemma out_of_date_debian:
  "out_of_date sys (debian_rules d) \<lparr>target = ''build'', prereqs = ps, recipe = rc\<rparr> w"
  "out_of_date sys (debian_rules d) \<lparr>target = ''clean'', prereqs = ps, recipe = rc\<rparr> w"
  "out_of_date sys (debian_rules d) \<lparr>target = ''install'', prereqs = ps, recipe = rc\<rparr> w"
  "out_of_date sys (debian_rules d) \<lparr>target = ''binary-indep'', prereqs = ps, recipe = rc\<rparr> w"
  "out_of_date sys (debian_rules d) \<lparr>target = ''binary-arch'', prereqs = ps, recipe = rc\<rparr> w"
  "out_of_date sys (debian_rules d) \<lparr>target = ''binary'', prereqs = ps, recipe = rc\<rparr> w"
  "out_of_date sys (debian_rules d) \<lparr>target = ''build-stamp'', prereqs = [], recipe = rc\<rparr> w
     = (\<not> file_exists sys w ''build-stamp'')"
  by (simp_all add: out_of_date_def debian_rules_def)


lemma run_recipe_append:
  "run_recipe sys (xs @ ys) w =
     (case run_recipe sys xs w of (ok, tr, w1) \<Rightarrow>
        if ok then (case run_recipe sys ys w1 of (ok', tr', w2) \<Rightarrow> (ok', tr @ tr', w2))
        else (False, tr, w1))"
  by (induction xs arbitrary: w) (auto split: prod.splits)


lemma run_recipe_result:
  obtains ok tr w' where "run_recipe sys ls w = (ok, tr, w')"
  by (cases "run_recipe sys ls w") auto


lemma mk_build_stamp:
  "run_make sys (debian_rules d) [''build-stamp''] w =
   run_recipe sys (plan (debian_rules d) ''build-stamp'' (file_exists sys w ''build-stamp'')) w"
proof -
  obtain ok0 tr0 w0 where
    "run_recipe sys (recipe_of (debian_rules d) ''build-stamp'') w = (ok0, tr0, w0)"
    by (rule run_recipe_result)
  then show ?thesis
    by (cases "file_exists sys w ''build-stamp''"; cases ok0;
        simp add: plan_def targets_run_def run_make_def find_rule_debian out_of_date_debian)
qed

lemma mk_build:
  "run_make sys (debian_rules d) [''build''] w =
   run_recipe sys (plan (debian_rules d) ''build'' (file_exists sys w ''build-stamp'')) w"
proof -
  obtain ok0 tr0 w0 where
    "run_recipe sys (recipe_of (debian_rules d) ''build-stamp'') w = (ok0, tr0, w0)"
    by (rule run_recipe_result)
  then show ?thesis
    by (cases "file_exists sys w ''build-stamp''"; cases ok0;
        simp add: plan_def targets_run_def run_make_def find_rule_debian out_of_date_debian)
qed

lemma mk_clean:
  "run_make sys (debian_rules d) [''clean''] w =
   run_recipe sys (plan (debian_rules d) ''clean'' (file_exists sys w ''build-stamp'')) w"
proof -
  obtain ok0 tr0 w0 where
    "run_recipe sys (recipe_of (debian_rules d) ''clean'') w = (ok0, tr0, w0)"
    by (rule run_recipe_result)
  then show ?thesis
    by (cases ok0;
        simp add: plan_def targets_run_def run_make_def find_rule_debian out_of_date_debian)
qed

lemma mk_install:
  "run_make sys (debian_rules d) [''install''] w =
   run_recipe sys (plan (debian_rules d) ''install'' (file_exists sys w ''build-stamp'')) w"
proof -
  let ?mf = "debian_rules d"
  obtain ok0 tr0 w0 where r0: "run_recipe sys
      (if file_exists sys w ''build-stamp'' then [] else recipe_of ?mf ''build-stamp'') w
      = (ok0, tr0, w0)"
    by (rule run_recipe_result)
  obtain ok1 tr1 w1 where r1: "run_recipe sys (recipe_of ?mf ''install'') w0 = (ok1, tr1, w1)"
    by (rule run_recipe_result)
  show ?thesis
    using r0 r1
    by (cases "file_exists sys w ''build-stamp''"; cases ok0; cases ok1;
        simp add: plan_def targets_run_def run_make_def find_rule_debian out_of_date_debian
          run_recipe_append)
qed

lemma mk_binary_indep:
  "run_make sys (debian_rules d) [''binary-indep''] w =
   run_recipe sys (plan (debian_rules d) ''binary-indep'' (file_exists sys w ''build-stamp'')) w"
proof -
  let ?mf = "debian_rules d"
  obtain ok0 tr0 w0 where r0: "run_recipe sys
      (if file_exists sys w ''build-stamp'' then [] else recipe_of ?mf ''build-stamp'') w
      = (ok0, tr0, w0)"
    by (rule run_recipe_result)
  obtain ok1 tr1 w1 where r1: "run_recipe sys (recipe_of ?mf ''install'') w0 = (ok1, tr1, w1)"
    by (rule run_recipe_result)
  obtain ok2 tr2 w2 where r2: "run_recipe sys (recipe_of ?mf ''binary-indep'') w1 = (ok2, tr2, w2)"
    by (rule run_recipe_result)
  show ?thesis
    using r0 r1 r2
    by (cases "file_exists sys w ''build-stamp''"; cases ok0; cases ok1; cases ok2;
        simp add: plan_def targets_run_def run_make_def find_rule_debian out_of_date_debian
          run_recipe_append)
qed

lemma mk_binary_arch:
  "run_make sys (debian_rules d) [''binary-arch''] w =
   run_recipe sys (plan (debian_rules d) ''binary-arch'' (file_exists sys w ''build-stamp'')) w"
proof -
  let ?mf = "debian_rules d"
  obtain ok0 tr0 w0 where r0: "run_recipe sys
      (if file_exists sys w ''build-stamp'' then [] else recipe_of ?mf ''build-stamp'') w
      = (ok0, tr0, w0)"
    by (rule run_recipe_result)
  obtain ok1 tr1 w1 where r1: "run_recipe sys (recipe_of ?mf ''install'') w0 = (ok1, tr1, w1)"
    by (rule run_recipe_result)
  obtain ok2 tr2 w2 where r2: "run_recipe sys (recipe_of ?mf ''binary-arch'') w1 = (ok2, tr2, w2)"
    by (rule run_recipe_result)
  show ?thesis
    using r0 r1 r2
    by (cases "file_exists sys w ''build-stamp''"; cases ok0; cases ok1; cases ok2;
        simp add: plan_def targets_run_def run_make_def find_rule_debian out_of_date_debian
          run_recipe_append)
qed

lemma mk_binary:
  "run_make sys (debian_rules d) [''binary''] w =
   run_recipe sys (plan (debian_rules d) ''binary'' (file_exists sys w ''build-stamp'')) w"
proof -
  let ?mf = "debian_rules d"
  obtain ok0 tr0 w0 where r0: "run_recipe sys
      (if file_exists sys w ''build-stamp'' then [] else recipe_of ?mf ''build-stamp'') w
      = (ok0, tr0, w0)"
    by (rule run_recipe_result)
  obtain ok1 tr1 w1 where r1: "run_recipe sys (recipe_of ?mf ''install'') w0 = (ok1, tr1, w1)"
    by (rule run_recipe_result)
  obtain ok2 tr2 w2 where r2: "run_recipe sys (recipe_of ?mf ''binary-indep'') w1 = (ok2, tr2, w2)"
    by (rule run_recipe_result)
  obtain ok3 tr3 w3 where r3: "run_recipe sys (recipe_of ?mf ''binary-arch'') w2 = (ok3, tr3, w3)"
    by (rule run_recipe_result)
  show ?thesis
    using r0 r1 r2 r3
    by (cases "file_exists sys w ''build-stamp''"; cases ok0; cases ok1; cases ok2; cases ok3;
        simp add: plan_def targets_run_def run_make_def find_rule_debian out_of_date_debian
          run_recipe_append)
qed

lemma run_make_plan:
  assumes "g \<in> set debian_goals"
  shows "run_make sys (debian_rules d) [g] w =
     run_recipe sys (plan (debian_rules d) g (file_exists sys w ''build-stamp'')) w"
proof -
  from assms have "g = ''build'' \<or> g = ''build-stamp'' \<or> g = ''clean'' \<or> g = ''install''
      \<or> g = ''binary-indep'' \<or> g = ''binary-arch'' \<or> g = ''binary''"
    by (simp add: debian_goals_def)
  then show ?thesis
  proof (elim disjE)
    assume g: "g = ''build''"
    show ?thesis unfolding g by (rule mk_build)
  next
    assume g: "g = ''build-stamp''"
    show ?thesis unfolding g by (rule mk_build_stamp)
  next
    assume g: "g = ''clean''"
    show ?thesis unfolding g by (rule mk_clean)
  next
    assume g: "g = ''install''"
    show ?thesis unfolding g by (rule mk_install)
  next
    assume g: "g = ''binary-indep''"
    show ?thesis unfolding g by (rule mk_binary_indep)
  next
    assume g: "g = ''binary-arch''"
    show ?thesis unfolding g by (rule mk_binary_arch)
  next
    assume g: "g = ''binary''"
    show ?thesis unfolding g by (rule mk_binary)
  qed
qed


lemma recipe_of_debian:
  "recipe_of (debian_rules d) ''build'' = []"
  "recipe_of (debian_rules d) ''build-stamp'' =
     [cmd ''dh_testdir'', cmd ''python setup.py build'', cmd ''touch build-stamp'',
      cmd ''touch build-stamp'']"
  "recipe_of (debian_rules d) ''clean'' =
     [cmd ''dh_testdir'', cmd ''dh_testroot'', cmd ''rm -rf build-stamp build'',
      dash ''find . -name '*.py[co]' | xargs rm -f'', cmd ''dh_clean'']"
  "recipe_of (debian_rules d) ''install'' =
     [cmd ''dh_testdir'', cmd ''dh_testroot'', cmd ''dh_clean -k'', cmd ''dh_installdirs'',
      cmd (''python setup.py install --root='' @ d @ ''/debian/python-pywbem'')]"
  "recipe_of (debian_rules d) ''binary-indep'' =
     [cmd ''dh_testdir'', cmd ''dh_testroot'', cmd ''dh_installdocs -i README'',
      cmd ''dh_installchangelogs -i'', cmd ''dh_compress -i'', cmd ''dh_fixperms -i'',
      cmd ''dh_pycentral -i'', cmd ''dh_installdeb -i'', cmd ''dh_gencontrol -i'',
      cmd ''dh_md5sums -i'', cmd ''dh_builddeb -i'']"
  "recipe_of (debian_rules d) ''binary-arch'' =
     [cmd ''dh_testdir'', cmd ''dh_testroot'', cmd ''dh_installdocs -a -A README'',
      cmd ''dh_installchangelogs -a'', cmd ''dh_strip -a'', cmd ''dh_compress -a'',
      cmd ''dh_fixperms -a'', cmd ''dh_pycentral -a'', cmd ''dh_installdeb -a'',
      cmd ''dh_shlibdeps -a'', cmd ''dh_gencontrol -a'', cmd ''dh_md5sums -a'',
      cmd ''dh_builddeb -a'']"
  "recipe_of (debian_rules d) ''binary'' = []"
  by (simp_all add: recipe_of_def find_rule_def debian_rules_def)

lemma build_again:
  assumes "file_exists sys w ''build-stamp''"
  shows "run_make sys (debian_rules d) [''build''] w = (True, [], w)"
  using assms by (simp add: run_make_plan debian_goals_def plan_def targets_run_def)

lemma build_creates_stamp:
  assumes "touch_creates sys"
    and "run_make sys (debian_rules d) [''build''] w = (True, tr, w')"
  shows "file_exists sys w' ''build-stamp''"
proof (cases "file_exists sys w ''build-stamp''")
  case True
  with assms(2) show ?thesis by (simp add: build_again)
next
  case False
  with assms(2) have "run_recipe sys (recipe_of (debian_rules d) ''build-stamp'') w = (True, tr, w')"
    by (simp add: run_make_plan debian_goals_def plan_def targets_run_def)
  then show ?thesis
    using assms(1) unfolding touch_creates_def
    by (auto simp: recipe_of_debian cmd_def split: prod.splits if_splits)
qed

lemma clean_run:
  assumes "exec sys ''dh_testdir'' w = (True, w1)"
    and "exec sys ''dh_testroot'' w1 = (True, w2)"
    and "exec sys ''rm -rf build-stamp build'' w2 = (True, w3)"
    and "exec sys ''find . -name '*.py[co]' | xargs rm -f'' w3 = (False, w4)"
    and "exec sys ''dh_clean'' w4 = (ok, w5)"
  shows "run_make sys (debian_rules d) [''clean''] w =
     (ok, [(''dh_testdir'', True), (''dh_testroot'', True), (''rm -rf build-stamp build'', True),
           (''find . -name '*.py[co]' | xargs rm -f'', False), (''dh_clean'', ok)], w5)"
  using assms
  by (simp add: run_make_plan debian_goals_def plan_def targets_run_def recipe_of_debian
      cmd_def dash_def)

lemma plan_head:
  assumes "g \<in> set debian_goals"
  shows "plan (debian_rules d) g stamp =
     (if (g = ''build'' \<or> g = ''build-stamp'') \<and> stamp then []
      else cmd ''dh_testdir'' # tl (plan (debian_rules d) g stamp))"
  using assms
  by (auto simp: debian_goals_def plan_def targets_run_def recipe_of_debian)

lemma debian_goals_targets: "map target (rules (debian_rules d)) = debian_goals"
  by (simp add: debian_rules_def debian_goals_def)

lemma run_recipe_append_cases:
  assumes "run_recipe sys (xs @ ys) w = (ok, tr, w')"
  obtains (stop) "run_recipe sys xs w = (False, tr, w')" "\<not> ok"
  | (go) tr1 w1 tr2 where "run_recipe sys xs w = (True, tr1, w1)"
      "run_recipe sys ys w1 = (ok, tr2, w')" "tr = tr1 @ tr2"
  using assms unfolding run_recipe_append
  by (auto split: prod.splits if_splits)

lemma run_recipe_Cons_cases:
  assumes "run_recipe sys (l # ls) w = (ok, tr, w')"
  obtains (fatal) "exec sys (command l) w = (False, w')" "\<not> ignore_errors l"
      "tr = [(command l, False)]" "\<not> ok"
  | (proceed) b w1 tr' where "exec sys (command l) w = (b, w1)" "b \<or> ignore_errors l"
      "run_recipe sys ls w1 = (ok, tr', w')" "tr = (command l, b) # tr'"
proof -
  obtain b w1 where e: "exec sys (command l) w = (b, w1)"
    by (cases "exec sys (command l) w") auto
  show thesis
  proof (cases "b \<or> ignore_errors l")
    case True
    obtain ok' tr' w'' where r: "run_recipe sys ls w1 = (ok', tr', w'')"
      by (cases "run_recipe sys ls w1") auto
    from assms e True r have "ok' = ok" "w'' = w'" "tr = (command l, b) # tr'"
      by auto
    with e True r show thesis by (intro proceed) auto
  next
    case False
    with assms e have "\<not> ok" "w1 = w'" "tr = [(command l, False)]" "\<not> b"
      by auto
    with e False show thesis by (intro fatal) auto
  qed
qed

lemma run_recipe_cmds:
  "run_recipe sys ls w = (ok, tr, w') \<Longrightarrow> fst ` set tr \<subseteq> command ` set ls"
proof (induction ls arbitrary: w ok tr w')
  case Nil
  then show ?case by simp
next
  case (Cons l ls)
  from Cons.prems show ?case
  proof (cases rule: run_recipe_Cons_cases)
    case fatal
    then show ?thesis by simp
  next
    case (proceed b w1 tr')
    from Cons.IH [OF proceed(3)] proceed(4) show ?thesis by auto
  qed
qed

lemma run_recipe_ok_strict:
  "run_recipe sys ls w = (True, tr, w') \<Longrightarrow> \<forall>l \<in> set ls. \<not> ignore_errors l \<Longrightarrow>
   tr = map (\<lambda>l. (command l, True)) ls"
proof (induction ls arbitrary: w tr w')
  case Nil
  then show ?case by simp
next
  case (Cons l ls)
  from Cons.prems(1) show ?case
  proof (cases rule: run_recipe_Cons_cases)
    case fatal
    then show ?thesis by simp
  next
    case (proceed b w1 tr')
    from Cons.prems(2) have "\<forall>l \<in> set ls. \<not> ignore_errors l" "\<not> ignore_errors l" by simp_all
    with Cons.IH [OF proceed(3)] proceed(2,4) show ?thesis by simp
  qed
qed

lemma binary_goals_debian: "g \<in> set binary_goals \<Longrightarrow> g \<in> set debian_goals"
  unfolding binary_goals_def debian_goals_def by (simp, elim disjE) simp_all

lemma plan_binary_shape:
  assumes "g \<in> set binary_goals"
  shows "plan (debian_rules d) g stamp =
     (if stamp then [] else recipe_of (debian_rules d) ''build-stamp'')
       @ recipe_of (debian_rules d) ''install''
       @ concat (map (recipe_of (debian_rules d)) (tl (targets_run g)))"
  using assms unfolding binary_goals_def
  by (simp, elim disjE) (simp_all add: plan_def targets_run_def)

lemma no_builddeb_before:
  "command ` set (if stamp then [] else recipe_of (debian_rules d) ''build-stamp'')
     \<inter> assembly = {}"
  "command ` set (recipe_of (debian_rules d) ''install'') \<inter> assembly = {}"
  "\<forall>l \<in> set (recipe_of (debian_rules d) ''install''). \<not> ignore_errors l"
  by (simp_all add: recipe_of_debian cmd_def assembly_def)

lemma staged:
  assumes g: "g \<in> set binary_goals"
    and r: "run_make sys (debian_rules d) [g] w = (ok, tr, w')"
  shows "(\<forall>e \<in> set tr. fst e \<notin> assembly) \<or>
         (\<exists>pre post. tr = pre @ installed d @ post \<and>
            (\<forall>e \<in> set (pre @ installed d). fst e \<notin> assembly))"
proof -
  define P0 where "P0 =
    (if file_exists sys w ''build-stamp'' then [] else recipe_of (debian_rules d) ''build-stamp'')"
  define I where "I = recipe_of (debian_rules d) ''install''"
  define rest where "rest = concat (map (recipe_of (debian_rules d)) (tl (targets_run g)))"
  have n0: "command ` set P0 \<inter> assembly = {}"
    unfolding P0_def by (rule no_builddeb_before(1))
  have n1: "command ` set I \<inter> assembly = {}"
    unfolding I_def by (rule no_builddeb_before(2))
  have n2: "\<forall>l \<in> set I. \<not> ignore_errors l"
    unfolding I_def by (rule no_builddeb_before(3))
  have inst: "installed d = map (\<lambda>l. (command l, True)) I"
    unfolding I_def installed_def ..
  from r have "run_recipe sys (plan (debian_rules d) g (file_exists sys w ''build-stamp'')) w
      = (ok, tr, w')"
    unfolding run_make_plan [OF binary_goals_debian [OF g]] .
  then have "run_recipe sys (P0 @ I @ rest) w = (ok, tr, w')"
    unfolding plan_binary_shape [OF g] P0_def I_def rest_def .
  then show ?thesis
  proof (cases rule: run_recipe_append_cases)
    case stop
    from run_recipe_cmds [OF stop(1)] n0
    have "\<forall>e \<in> set tr. fst e \<notin> assembly" by blast
    then show ?thesis ..
  next
    case (go tr0 w0 tr')
    from run_recipe_cmds [OF go(1)] n0
    have a0: "\<forall>e \<in> set tr0. fst e \<notin> assembly" by blast
    from go(2) show ?thesis
    proof (cases rule: run_recipe_append_cases)
      case stop
      from run_recipe_cmds [OF stop(1)] n1
      have "\<forall>e \<in> set tr'. fst e \<notin> assembly" by blast
      with a0 go(3) have "\<forall>e \<in> set tr. fst e \<notin> assembly" by auto
      then show ?thesis ..
    next
      case (go tr1 w1 tr2)
      from run_recipe_ok_strict [OF go(1) n2] inst
      have t1: "tr1 = installed d" by simp
      from run_recipe_cmds [OF go(1)] n1
      have "\<forall>e \<in> set tr1. fst e \<notin> assembly" by blast
      with a0 t1 have "\<forall>e \<in> set (tr0 @ installed d). fst e \<notin> assembly" by auto
      moreover from \<open>tr = tr0 @ tr'\<close> go(3) t1 have "tr = tr0 @ installed d @ tr2" by simp
      ultimately show ?thesis by blast
    qed
  qed
qed


lemma take_past_prefix:
  assumes "tr = pre @ post" and "\<forall>e \<in> set pre. \<not> P e" and "j < length tr" and "P (tr ! j)"
  shows "take j tr = pre @ take (j - length pre) post"
proof -
  have "\<not> j < length pre"
  proof
    assume "j < length pre"
    with assms(1) have "tr ! j \<in> set pre" by (simp add: nth_append)
    with assms(2,4) show False by blast
  qed
  with assms(1) show ?thesis by simp
qed

lemma install_cmd_installed: "(install_cmd d, True) \<in> set (installed d)"
  by (simp add: installed_def install_cmd_def recipe_of_debian cmd_def)

lemma staged_before:
  assumes "g \<in> set binary_goals"
    and "run_make sys (debian_rules d) [g] w = (ok, tr, w')"
    and "j < length tr"
    and "fst (tr ! j) \<in> assembly"
  shows "(\<exists>pre post. take j tr = pre @ installed d @ post) \<and>
         (install_cmd d, True) \<in> set (take j tr)"
proof -
  from assms(3) have "tr ! j \<in> set tr" by simp
  with assms(4) have "\<not> (\<forall>e \<in> set tr. fst e \<notin> assembly)" by blast
  with staged [OF assms(1,2)] obtain pre post where
    tr: "tr = (pre @ installed d) @ post" and
    no: "\<forall>e \<in> set (pre @ installed d). \<not> fst e \<in> assembly"
    by auto
  from take_past_prefix [where P = "\<lambda>e. fst e \<in> assembly", OF tr no assms(3,4)]
  have t: "take j tr = pre @ installed d @ take (j - length (pre @ installed d)) post"
    by simp
  then have "\<exists>pre post. take j tr = pre @ installed d @ post" by blast
  moreover from t install_cmd_installed [of d]
  have "(install_cmd d, True) \<in> set (take j tr)"
    by simp
  ultimately show ?thesis by blast
qed

lemma binary_trace:
  "run_make (sim []) (debian_rules ''/src'') [''binary''] [] =
     (True,
      [(''dh_testdir'', True), (''python setup.py build'', True),
       (''touch build-stamp'', True), (''touch build-stamp'', True),
       (''dh_testdir'', True), (''dh_testroot'', True), (''dh_clean -k'', True),
       (''dh_installdirs'', True),
       (''python setup.py install --root=/src/debian/python-pywbem'', True),
       (''dh_testdir'', True), (''dh_testroot'', True),
       (''dh_installdocs -i README'', True),
       (''dh_installchangelogs -i'', True), (''dh_compress -i'', True),
       (''dh_fixperms -i'', True), (''dh_pycentral -i'', True),
       (''dh_installdeb -i'', True), (''dh_gencontrol -i'', True),
       (''dh_md5sums -i'', True), (''dh_builddeb -i'', True),
       (''dh_testdir'', True), (''dh_testroot'', True),
       (''dh_installdocs -a -A README'', True),
       (''dh_installchangelogs -a'', True), (''dh_strip -a'', True),
       (''dh_compress -a'', True), (''dh_fixperms -a'', True),
       (''dh_pycentral -a'', True), (''dh_installdeb -a'', True),
       (''dh_shlibdeps -a'', True), (''dh_gencontrol -a'', True),
       (''dh_md5sums -a'', True), (''dh_builddeb -a'', True)],
      [''build-stamp''])"
  by (simp add: run_make_plan debian_goals_def plan_def targets_run_def recipe_of_debian
      cmd_def sim_def)

lemma run_make_collapse:
  "run_make sys mf gs w =
     (fst (run_make sys mf gs w), fst (snd (run_make sys mf gs w)), snd (snd (run_make sys mf gs w)))"
  by simp

text \<open>
  C4. Whenever \<^verbatim>\<open>binary\<close>, \<^verbatim>\<open>binary-indep\<close> or \<^verbatim>\<open>binary-arch\<close> is made,
  the \<^verbatim>\<open>install\<close> target runs first: at every point of the run where a
  package-assembly command (\<^verbatim>\<open>dh_builddeb\<close>) is executed, the whole recipe of
  \<^verbatim>\<open>install\<close> has been executed before, every command of it with success, among
  them the command that installs the files under the staging root
  \<^verbatim>\<open>debian/python-pywbem\<close> of the current directory.
\<close>

theorem install_before_builddeb:
  assumes "g \<in> set binary_goals"
    and "run_make sys (debian_rules d) [g] w = (ok, tr, w')"
    and "j < length tr"
    and "fst (tr ! j) \<in> assembly"
  shows "(\<exists>pre post. take j tr = pre @ installed d @ post) \<and>
         (install_cmd d, True) \<in> set (take j tr)"
  using assms by (rule staged_before)

theorem install_before_builddeb_witness:
  "''binary'' \<in> set binary_goals \<and>
   19 < length (fst (snd (run_make (sim []) (debian_rules ''/src'') [''binary''] []))) \<and>
   fst (fst (snd (run_make (sim []) (debian_rules ''/src'') [''binary''] [])) ! 19) \<in> assembly \<and>
   (install_cmd ''/src'', True)
     \<in> set (take 19 (fst (snd (run_make (sim []) (debian_rules ''/src'') [''binary''] []))))"
proof -
  have a: "''binary'' \<in> set binary_goals"
    by (simp add: binary_goals_def)
  have b: "19 < length (fst (snd (run_make (sim []) (debian_rules ''/src'') [''binary''] [])))"
    by (simp add: binary_trace)
  have c: "fst (fst (snd (run_make (sim []) (debian_rules ''/src'') [''binary''] [])) ! 19)
      \<in> assembly"
    by (simp add: binary_trace assembly_def)
  from install_before_builddeb [OF a run_make_collapse b c]
  have d: "(install_cmd ''/src'', True)
     \<in> set (take 19 (fst (snd (run_make (sim []) (debian_rules ''/src'') [''binary''] []))))"
    by (rule conjunct2)
  from a b c d show ?thesis by (intro conjI)
qed

text \<open>
  C9. The clean target treats a failure of the bytecode-removal pipeline as non-fatal:
  the line carries the \<^verbatim>\<open>-\<close> prefix, so when the three commands before it succeed
  and the pipeline fails, \<^verbatim>\<open>dh_clean\<close> still runs next, and the outcome of
  \<^verbatim>\<open>clean\<close> is the outcome of \<^verbatim>\<open>dh_clean\<close>: success when it succeeds.
\<close>

theorem clean_ignores_find_failure:
  assumes "exec sys ''dh_testdir'' w = (True, w1)"
    and "exec sys ''dh_testroot'' w1 = (True, w2)"
    and "exec sys ''rm -rf build-stamp build'' w2 = (True, w3)"
    and "exec sys ''find . -name '*.py[co]' | xargs rm -f'' w3 = (False, w4)"
    and "exec sys ''dh_clean'' w4 = (ok, w5)"
  shows "run_make sys (debian_rules d) [''clean''] w =
     (ok, [(''dh_testdir'', True), (''dh_testroot'', True), (''rm -rf build-stamp build'', True),
           (''find . -name '*.py[co]' | xargs rm -f'', False), (''dh_clean'', ok)], w5)"
  using assms by (rule clean_run)

theorem clean_ignores_find_failure_witness:
  "run_make (sim [''find . -name '*.py[co]' | xargs rm -f'']) (debian_rules ''/src'')
     [''clean''] [''build-stamp''] =
     (True, [(''dh_testdir'', True), (''dh_testroot'', True), (''rm -rf build-stamp build'', True),
             (''find . -name '*.py[co]' | xargs rm -f'', False), (''dh_clean'', True)], [])"
proof -
  let ?find = "''find . -name '*.py[co]' | xargs rm -f''"
  let ?sys = "sim [?find]"
  have 1: "exec ?sys ''dh_testdir'' [''build-stamp''] = (True, [''build-stamp''])"
    by (simp add: sim_def)
  have 2: "exec ?sys ''dh_testroot'' [''build-stamp''] = (True, [''build-stamp''])"
    by (simp add: sim_def)
  have 3: "exec ?sys ''rm -rf build-stamp build'' [''build-stamp''] = (True, [])"
    by (simp add: sim_def)
  have 4: "exec ?sys ?find [] = (False, [])"
    by (simp add: sim_def)
  have 5: "exec ?sys ''dh_clean'' [] = (True, [])"
    by (simp add: sim_def)
  from clean_ignores_find_failure [OF 1 2 3 4 5] show ?thesis .
qed

text \<open>
  C10. Every state-changing target (\<^verbatim>\<open>build-stamp\<close>, \<^verbatim>\<open>clean\<close>,
  \<^verbatim>\<open>install\<close>, \<^verbatim>\<open>binary-indep\<close>, \<^verbatim>\<open>binary-arch\<close>) has
  \<^verbatim>\<open>dh_testdir\<close> as the first command of its recipe, and all of them but
  \<^verbatim>\<open>build-stamp\<close> have \<^verbatim>\<open>dh_testroot\<close> as the second, before every other
  command. So when make is invoked in the wrong directory, where \<^verbatim>\<open>dh_testdir\<close>
  fails (and, being a test, changes nothing), the target fails with no other command
  executed and the machine unchanged; the one case with no failure is \<^verbatim>\<open>build-stamp\<close>
  with its file present, where make runs nothing at all.
\<close>

theorem testdir_first:
  assumes "g \<in> {''build-stamp'', ''clean'', ''install'', ''binary-indep'', ''binary-arch''}"
  shows "(\<exists>ls. recipe_of (debian_rules d) g = cmd ''dh_testdir'' # ls) \<and>
         (g \<noteq> ''build-stamp'' \<longrightarrow>
            (\<exists>ls. recipe_of (debian_rules d) g = cmd ''dh_testdir'' # cmd ''dh_testroot'' # ls)) \<and>
         (exec sys ''dh_testdir'' w = (False, w) \<longrightarrow>
            run_make sys (debian_rules d) [g] w =
              (if g = ''build-stamp'' \<and> file_exists sys w ''build-stamp'' then (True, [], w)
               else (False, [(''dh_testdir'', False)], w)))"
proof (intro conjI impI)
  show "\<exists>ls. recipe_of (debian_rules d) g = cmd ''dh_testdir'' # ls"
    using assms by (auto simp: recipe_of_debian)
next
  assume "g \<noteq> ''build-stamp''"
  with assms show "\<exists>ls. recipe_of (debian_rules d) g = cmd ''dh_testdir'' # cmd ''dh_testroot'' # ls"
    by (auto simp: recipe_of_debian)
next
  assume x: "exec sys ''dh_testdir'' w = (False, w)"
  from assms have g: "g \<in> set debian_goals" by (auto simp: debian_goals_def)
  have "run_recipe sys (plan (debian_rules d) g (file_exists sys w ''build-stamp'')) w =
     (if (g = ''build'' \<or> g = ''build-stamp'') \<and> file_exists sys w ''build-stamp''
      then (True, [], w) else (False, [(''dh_testdir'', False)], w))"
    by (subst plan_head [OF g]) (simp add: x cmd_def)
  moreover from assms have "g \<noteq> ''build''" by auto
  ultimately show "run_make sys (debian_rules d) [g] w =
     (if g = ''build-stamp'' \<and> file_exists sys w ''build-stamp'' then (True, [], w)
      else (False, [(''dh_testdir'', False)], w))"
    by (simp add: run_make_plan [OF g])
qed

theorem testdir_first_witness:
  "''install'' \<in> {''build-stamp'', ''clean'', ''install'', ''binary-indep'', ''binary-arch''} \<and>
   exec (sim [''dh_testdir'']) ''dh_testdir'' [] = (False, []) \<and>
   run_make (sim [''dh_testdir'']) (debian_rules ''/src'') [''install''] [] =
     (False, [(''dh_testdir'', False)], [])"
proof -
  have a: "''install'' \<in> {''build-stamp'', ''clean'', ''install'', ''binary-indep'', ''binary-arch''}"
    by simp
  have b: "exec (sim [''dh_testdir'']) ''dh_testdir'' [] = (False, [])"
    by (simp add: sim_def)
  from testdir_first [OF a, of "''/src''" "sim [''dh_testdir'']" "[]"] a b
  show ?thesis by simp
qed

section \<open>Conditionals and failures in the two scripts\<close>

lemma all_simple:
  "\<forall>c \<in> set (install travis_yml @ script travis_yml). \<exists>s. c = Simple s"
  by (simp add: travis_yml_def)

lemma run_recipe_fatal:
  "run_recipe sys ls w = (ok, tr, w') \<Longrightarrow>
     (\<forall>e \<in> set (butlast tr). \<not> snd e \<longrightarrow> fst e \<in> set (ignored ls)) \<and>
     (ok \<longrightarrow> (\<forall>e \<in> set tr. \<not> snd e \<longrightarrow> fst e \<in> set (ignored ls)))"
proof (induction ls arbitrary: w ok tr w')
  case Nil
  then show ?case by simp
next
  case (Cons l ls)
  from Cons.prems show ?case
  proof (cases rule: run_recipe_Cons_cases)
    case fatal
    then show ?thesis by simp
  next
    case (proceed b w1 tr')
    have sub: "set (ignored ls) \<subseteq> set (ignored (l # ls))"
      by (auto simp: ignored_def)
    have hd: "\<not> b \<longrightarrow> command l \<in> set (ignored (l # ls))"
      using proceed(2) by (auto simp: ignored_def)
    from Cons.IH [OF proceed(3)] sub
    have ih: "\<forall>e \<in> set (butlast tr'). \<not> snd e \<longrightarrow> fst e \<in> set (ignored (l # ls))"
      "ok \<longrightarrow> (\<forall>e \<in> set tr'. \<not> snd e \<longrightarrow> fst e \<in> set (ignored (l # ls)))"
      by blast+
    show ?thesis
    proof (cases "tr' = []")
      case True
      with proceed(4) hd show ?thesis by simp
    next
      case False
      with proceed(4) have "butlast tr = (command l, b) # butlast tr'" by simp
      with proceed(4) hd ih show ?thesis by simp
    qed
  qed
qed

lemma fatal_is_last:
  assumes "\<forall>e \<in> set (butlast tr). \<not> snd e \<longrightarrow> fst e \<in> A"
    and "e \<in> set tr" and "\<not> snd e" and "fst e \<notin> A"
  shows "tr \<noteq> [] \<and> last tr = e"
proof -
  from assms(2) have ne: "tr \<noteq> []" by auto
  then have "tr = butlast tr @ [last tr]" by simp
  then have "set tr = set (butlast tr) \<union> {last tr}"
    by (metis Un_insert_right append_Nil2 list.simps(15) set_append sup_bot.right_neutral)
  with assms have "e = last tr" by blast
  with ne show ?thesis by simp
qed

lemma ignored_plan:
  assumes "g \<in> set debian_goals"
  shows "set (ignored (plan (debian_rules d) g stamp)) \<subseteq> {''find . -name '*.py[co]' | xargs rm -f''}"
  using assms unfolding debian_goals_def
  by (simp, elim disjE)
     (simp_all add: plan_def targets_run_def recipe_of_debian ignored_def cmd_def dash_def)

lemma make_fatal:
  assumes g: "g \<in> set debian_goals"
    and r: "run_make sys (debian_rules d) [g] w = (ok, tr, w')"
    and e: "e \<in> set tr" "\<not> snd e" "fst e \<noteq> ''find . -name '*.py[co]' | xargs rm -f''"
  shows "\<not> ok \<and> last tr = e \<and>
     (\<forall>e' \<in> set (butlast tr). \<not> snd e' \<longrightarrow> fst e' = ''find . -name '*.py[co]' | xargs rm -f'')"
proof -
  define A where "A = set (ignored (plan (debian_rules d) g (file_exists sys w ''build-stamp'')))"
  define f where "f = ''find . -name '*.py[co]' | xargs rm -f''"
  have A: "A \<subseteq> {f}" unfolding A_def f_def by (rule ignored_plan [OF g])
  from r have "run_recipe sys (plan (debian_rules d) g (file_exists sys w ''build-stamp'')) w
      = (ok, tr, w')"
    unfolding run_make_plan [OF g] .
  from run_recipe_fatal [OF this]
  have 1: "\<forall>e \<in> set (butlast tr). \<not> snd e \<longrightarrow> fst e \<in> A"
    and 2: "ok \<longrightarrow> (\<forall>e \<in> set tr. \<not> snd e \<longrightarrow> fst e \<in> A)"
    unfolding A_def by blast+
  from e(3) A have n: "fst e \<notin> A" unfolding f_def by blast
  from fatal_is_last [OF 1 e(1,2) n] have "last tr = e" by simp
  moreover from 2 e(1,2) n have "\<not> ok" by blast
  moreover from 1 A have "\<forall>e' \<in> set (butlast tr). \<not> snd e' \<longrightarrow> fst e' = f" by blast
  ultimately show ?thesis unfolding f_def by simp
qed

lemma run_sh_Simple:
  assumes "run_sh sys env (Simple s) w = (ok, tr, w')"
  shows "tr = [(s, ok)]"
  using assms by (auto split: prod.splits)

lemma run_abort_simple:
  "run_abort sys env cs w = (ok, tr, w') \<Longrightarrow> \<forall>c \<in> set cs. \<exists>s. c = Simple s \<Longrightarrow>
     (\<forall>e \<in> set (butlast tr). snd e) \<and> (ok \<longrightarrow> (\<forall>e \<in> set tr. snd e))"
proof (induction cs arbitrary: w ok tr w')
  case Nil
  then show ?case by simp
next
  case (Cons c cs)
  from Cons.prems(2) obtain s where c: "c = Simple s" by auto
  obtain ok1 tr1 w1 where r1: "run_sh sys env c w = (ok1, tr1, w1)"
    by (cases "run_sh sys env c w") auto
  from r1 c have t1: "tr1 = [(s, ok1)]" by (simp add: run_sh_Simple)
  show ?case
  proof (cases ok1)
    case False
    with Cons.prems(1) r1 have "tr = tr1" "\<not> ok" by simp_all
    with t1 show ?thesis by simp
  next
    case True
    obtain ok2 tr2 w2 where r2: "run_abort sys env cs w1 = (ok2, tr2, w2)"
      by (cases "run_abort sys env cs w1") auto
    from Cons.prems(1) r1 True r2 have e: "tr = tr1 @ tr2" "ok = ok2" by simp_all
    from Cons.prems(2) have "\<forall>c \<in> set cs. \<exists>s. c = Simple s" by simp
    from Cons.IH [OF r2 this]
    have ih: "\<forall>e \<in> set (butlast tr2). snd e" "ok2 \<longrightarrow> (\<forall>e \<in> set tr2. snd e)" by simp_all
    show ?thesis
    proof (cases "tr2 = []")
      case True
      with e t1 \<open>ok1\<close> show ?thesis by simp
    next
      case False
      with e t1 have "butlast tr = (s, ok1) # butlast tr2" by simp
      with e t1 \<open>ok1\<close> ih show ?thesis by simp
    qed
  qed
qed

lemma run_all_simple:
  "run_all sys env cs w = (ok, tr, w') \<Longrightarrow> \<forall>c \<in> set cs. \<exists>s. c = Simple s \<Longrightarrow>
     ok = (\<forall>e \<in> set tr. snd e)"
proof (induction cs arbitrary: w ok tr w')
  case Nil
  then show ?case by auto
next
  case (Cons c cs)
  from Cons.prems(2) obtain s where c: "c = Simple s" by auto
  obtain ok1 tr1 w1 where r1: "run_sh sys env c w = (ok1, tr1, w1)"
    by (cases "run_sh sys env c w") auto
  from r1 c have t1: "tr1 = [(s, ok1)]" by (simp add: run_sh_Simple)
  obtain ok2 tr2 w2 where r2: "run_all sys env cs w1 = (ok2, tr2, w2)"
    by (cases "run_all sys env cs w1") auto
  from Cons.prems(1) r1 r2 have e: "tr = tr1 @ tr2" "ok = (ok1 \<and> ok2)" by simp_all
  from Cons.prems(2) have "\<forall>c \<in> set cs. \<exists>s. c = Simple s" by simp
  from Cons.IH [OF r2 this] e t1 show ?case by simp
qed

lemma simple_install: "\<forall>c \<in> set (install travis_yml). \<exists>s. c = Simple s"
  by (simp add: travis_yml_def)

lemma simple_script: "\<forall>c \<in> set (script travis_yml). \<exists>s. c = Simple s"
  by (simp add: travis_yml_def)

lemma phase_install: "\<forall>c \<in> set (concat (map commands_of (install travis_yml))). phase c = 0"
  by (simp add: travis_yml_def phase_def)

lemma phase_script:
  "\<forall>c \<in> set (concat (map commands_of (script travis_yml))). phase c \<in> {1, 2, 3}"
  by (simp add: travis_yml_def phase_def)

lemma phase_coveralls: "phase ''coveralls'' = 4"
  by (simp add: phase_def)

lemma only_failure_is_last:
  assumes "\<forall>e \<in> set (butlast tr). snd e" and "e \<in> set tr" and "\<not> snd e"
  shows "last tr = e"
proof -
  from assms(2) have "tr \<noteq> []" by auto
  then have "tr = butlast tr @ [last tr]" by simp
  then have "set tr = insert (last tr) (set (butlast tr))"
    by (metis list.simps(15) rotate1.simps(2) set_rotate1)
  with assms show ?thesis by auto
qed

lemma ci_failure:
  assumes r: "run_job sys travis_yml v w = (res, tr, w')"
    and e: "e \<in> set tr" "\<not> snd e"
  shows "(phase (fst e) = 0 \<longrightarrow> res = Errored \<and> last tr = e \<and> (\<forall>e' \<in> set (butlast tr). snd e')) \<and>
         (phase (fst e) \<in> {1, 2, 3} \<longrightarrow> res = Failed \<and> ''coveralls'' \<notin> set (map fst tr)) \<and>
         (phase (fst e) = 4 \<longrightarrow> res = Passed \<and> last tr = e)"
  using r
proof (cases rule: run_job_cases)
  case (errored tr1 w1)
  from run_abort_simple [OF errored(1) simple_install]
  have b: "\<forall>e \<in> set (butlast tr1). snd e" by simp
  from run_abort_subseq [OF errored(1)] have "set (map fst tr1) \<subseteq>
      set (concat (map commands_of (install travis_yml)))"
    by (rule subseq_set)
  with e(1) errored(3) phase_install have p: "phase (fst e) = 0" by auto
  from only_failure_is_last [OF b] e errored(3) have "last tr = e" by simp
  with p b errored show ?thesis by simp
next
  case (failed tr1 w1 tr2 w2)
  from run_abort_simple [OF failed(1) simple_install]
  have a1: "\<forall>e \<in> set tr1. snd e" by simp
  with e failed(4) have "e \<in> set tr2" by auto
  moreover from run_all_subseq [OF failed(2)] have s2: "set (map fst tr2) \<subseteq>
      set (concat (map commands_of (script travis_yml)))"
    by (rule subseq_set)
  ultimately have p: "phase (fst e) \<in> {1, 2, 3}" using phase_script by auto
  from run_abort_subseq [OF failed(1)] have s1: "set (map fst tr1) \<subseteq>
      set (concat (map commands_of (install travis_yml)))"
    by (rule subseq_set)
  from s1 s2 coveralls_not_before failed(4) have "''coveralls'' \<notin> set (map fst tr)"
    by auto
  with p failed(3) show ?thesis by auto
next
  case (passed tr1 w1 tr2 w2 ok3 tr3 w3)
  from run_abort_simple [OF passed(1) simple_install]
  have a1: "\<forall>e \<in> set tr1. snd e" by simp
  from run_all_simple [OF passed(2) simple_script]
  have a2: "\<forall>e \<in> set tr2. snd e" by simp
  from a1 a2 e passed(5) have e3: "e \<in> set tr3" by auto
  from after_success_trace [OF passed(3)] have "length tr3 \<le> 1 \<and> (\<forall>x \<in> set tr3. fst x = ''coveralls'')"
    by (cases "v = ''2.7''"; cases tr3) (auto split: if_splits)
  with e3 have t3: "tr3 = [e]" "fst e = ''coveralls''"
    by (cases tr3; auto)+
  with passed(5) have "last tr = e" by simp
  with t3 passed(4) phase_coveralls show ?thesis by simp
qed

lemma run_abort_simple_cmds:
  "run_abort sys env cs w = (ok, tr, w') \<Longrightarrow> \<forall>c \<in> set cs. \<exists>s. c = Simple s \<Longrightarrow>
     (ok \<longrightarrow> map fst tr = concat (map commands_of cs)) \<and> (\<not> ok \<longrightarrow> (\<exists>e \<in> set tr. \<not> snd e))"
proof (induction cs arbitrary: w ok tr w')
  case Nil
  then show ?case by simp
next
  case (Cons c cs)
  from Cons.prems(2) obtain s where c: "c = Simple s" by auto
  obtain ok1 tr1 w1 where r1: "run_sh sys env c w = (ok1, tr1, w1)"
    by (cases "run_sh sys env c w") auto
  from r1 c have t1: "tr1 = [(s, ok1)]" by (simp add: run_sh_Simple)
  show ?case
  proof (cases ok1)
    case False
    with Cons.prems(1) r1 have "tr = tr1" "\<not> ok" by simp_all
    with t1 False show ?thesis by simp
  next
    case True
    obtain ok2 tr2 w2 where r2: "run_abort sys env cs w1 = (ok2, tr2, w2)"
      by (cases "run_abort sys env cs w1") auto
    from Cons.prems(1) r1 True r2 have e: "tr = tr1 @ tr2" "ok = ok2" by simp_all
    from Cons.prems(2) have "\<forall>c \<in> set cs. \<exists>s. c = Simple s" by simp
    from Cons.IH [OF r2 this] e t1 c show ?thesis by auto
  qed
qed

lemma run_all_simple_cmds:
  "run_all sys env cs w = (ok, tr, w') \<Longrightarrow> \<forall>c \<in> set cs. \<exists>s. c = Simple s \<Longrightarrow>
     map fst tr = concat (map commands_of cs)"
proof (induction cs arbitrary: w ok tr w')
  case Nil
  then show ?case by auto
next
  case (Cons c cs)
  from Cons.prems(2) obtain s where c: "c = Simple s" by auto
  obtain ok1 tr1 w1 where r1: "run_sh sys env c w = (ok1, tr1, w1)"
    by (cases "run_sh sys env c w") auto
  from r1 c have t1: "tr1 = [(s, ok1)]" by (simp add: run_sh_Simple)
  obtain ok2 tr2 w2 where r2: "run_all sys env cs w1 = (ok2, tr2, w2)"
    by (cases "run_all sys env cs w1") auto
  from Cons.prems(1) r1 r2 have e: "tr = tr1 @ tr2" by simp
  from Cons.prems(2) have "\<forall>c \<in> set cs. \<exists>s. c = Simple s" by simp
  from Cons.IH [OF r2 this] e t1 c show ?case by simp
qed

lemma run_recipe_no_failure:
  "run_recipe sys ls w = (ok, tr, w') \<Longrightarrow> \<forall>e \<in> set tr. snd e \<Longrightarrow>
     ok \<and> map fst tr = map command ls"
proof (induction ls arbitrary: w ok tr w')
  case Nil
  then show ?case by simp
next
  case (Cons l ls)
  from Cons.prems(1) show ?case
  proof (cases rule: run_recipe_Cons_cases)
    case fatal
    with Cons.prems(2) show ?thesis by simp
  next
    case (proceed b w1 tr')
    with Cons.prems(2) have "\<forall>e \<in> set tr'. snd e" by simp
    from Cons.IH [OF proceed(3) this] proceed(4) show ?thesis by simp
  qed
qed

lemma run_job_reaches_script:
  assumes "run_job sys travis_yml v w = (res, tr, w')" and "res \<noteq> Errored"
  shows "\<exists>rest. map fst tr = install_and_script travis_yml @ rest \<and>
           (res = Failed \<longrightarrow> rest = []) \<and>
           (res = Passed \<longrightarrow> rest = (if v = ''2.7'' then [''coveralls''] else []))"
  using assms(1)
proof (cases rule: run_job_cases)
  case (errored tr1 w1)
  with assms(2) show ?thesis by simp
next
  case (failed tr1 w1 tr2 w2)
  from run_abort_simple_cmds [OF failed(1) simple_install]
  have "map fst tr1 = concat (map commands_of (install travis_yml))" by simp
  moreover from run_all_simple_cmds [OF failed(2) simple_script]
  have "map fst tr2 = concat (map commands_of (script travis_yml))" .
  ultimately show ?thesis using failed(3,4) by (simp add: install_and_script_def)
next
  case (passed tr1 w1 tr2 w2 ok3 tr3 w3)
  from run_abort_simple_cmds [OF passed(1) simple_install]
  have "map fst tr1 = concat (map commands_of (install travis_yml))" by simp
  moreover from run_all_simple_cmds [OF passed(2) simple_script]
  have "map fst tr2 = concat (map commands_of (script travis_yml))" .
  moreover note after_success_trace [OF passed(3)]
  ultimately show ?thesis using passed(4,5) by (simp add: install_and_script_def)
qed

lemma run_job_no_failure:
  assumes "run_job sys travis_yml v w = (res, tr, w')" and "\<forall>e \<in> set tr. snd e"
  shows "res = Passed \<and>
     map fst tr = install_and_script travis_yml @ (if v = ''2.7'' then [''coveralls''] else [])"
proof -
  have p: "res = Passed"
    using assms(1)
  proof (cases rule: run_job_cases)
    case (errored tr1 w1)
    from run_abort_simple_cmds [OF errored(1) simple_install]
    have "\<exists>e \<in> set tr1. \<not> snd e" by simp
    with assms(2) errored(3) show ?thesis by simp
  next
    case (failed tr1 w1 tr2 w2)
    from run_all_simple [OF failed(2) simple_script]
    have "\<exists>e \<in> set tr2. \<not> snd e" by simp
    with assms(2) failed(4) show ?thesis by auto
  next
    case (passed tr1 w1 tr2 w2 ok3 tr3 w3)
    then show ?thesis by simp
  qed
  then have "res \<noteq> Errored" by simp
  from run_job_reaches_script [OF assms(1) this] p show ?thesis by auto
qed

lemma pipeline_split:
  "pipeline travis_yml = install_and_script travis_yml @ [''coveralls'']"
  by (simp add: pipeline_def install_and_script_def travis_yml_def)

lemma run_job_nonempty:
  assumes "run_job sys travis_yml v w = (res, tr, w')"
  shows "tr \<noteq> []"
proof (cases "res = Errored")
  case True
  from assms show ?thesis
  proof (cases rule: run_job_cases)
    case (errored tr1 w1)
    from run_abort_simple_cmds [OF errored(1) simple_install]
    have "\<exists>e \<in> set tr1. \<not> snd e" by simp
    with errored(3) show ?thesis by auto
  next
    case (failed tr1 w1 tr2 w2)
    with True show ?thesis by simp
  next
    case (passed tr1 w1 tr2 w2 ok3 tr3 w3)
    with True show ?thesis by simp
  qed
next
  case False
  from run_job_reaches_script [OF assms False] obtain rest where
    "map fst tr = install_and_script travis_yml @ rest" by blast
  moreover have "install_and_script travis_yml \<noteq> []"
    by (simp add: install_and_script_def travis_yml_def)
  ultimately show ?thesis by auto
qed

lemma green_job:
  "fst (run_job (sim []) travis_yml ''2.7'' []) = Passed"
  "\<forall>e \<in> set (fst (snd (run_job (sim []) travis_yml ''2.7'' []))). snd e"
  by (simp_all add: run_job_def travis_yml_def travis_env_def sim_def)

lemma green_build:
  "run_make (sim []) (debian_rules ''/src'') [''build''] [] =
     (True, [(''dh_testdir'', True), (''python setup.py build'', True),
             (''touch build-stamp'', True), (''touch build-stamp'', True)], [''build-stamp''])"
  by (simp add: run_make_plan debian_goals_def plan_def targets_run_def recipe_of_debian
      cmd_def sim_def)

text \<open>
  C5, as stated, does not hold: the scripts are not free of conditionals. The command
  \<^verbatim>\<open>coveralls\<close> is listed in \<^verbatim>\<open>after_success\<close>, and in the job for Python
  3.6, on a machine where every command succeeds and the job passes, it is not executed.
\<close>

theorem listed_command_skipped:
  "''coveralls'' \<in> set (pipeline travis_yml) \<and>
   fst (run_job (sim []) travis_yml ''3.6'' []) = Passed \<and>
   ''coveralls'' \<notin> set (map fst (fst (snd (run_job (sim []) travis_yml ''3.6'' []))))"
  by (simp add: pipeline_def travis_yml_def run_job_def travis_env_def sim_def)

text \<open>
  C5, amended. Every command of the \<^verbatim>\<open>install\<close> and \<^verbatim>\<open>script\<close> sequences is
  a simple command with no conditional around it, and so is every recipe line of the
  packaging script. In a job in which no executed command fails, all commands of
  \<^verbatim>\<open>install\<close> and \<^verbatim>\<open>script\<close> are executed, in the order of the file; a recipe
  that is run with none of its executed commands failing executes all its lines; and
  making a goal, with no executed command failing, executes all lines of the recipes make
  has to run for it. The sequence \<^verbatim>\<open>after_success\<close> holds the one conditional:
  in such a job \<^verbatim>\<open>coveralls\<close> is executed exactly when the Python version is 2.7.
\<close>

theorem unconditional_except_coveralls:
  "(\<forall>c \<in> set (install travis_yml @ script travis_yml). \<exists>s. c = Simple s) \<and>
   (run_job sys travis_yml v w = (res, tr, w') \<and> (\<forall>e \<in> set tr. snd e) \<longrightarrow>
      map fst tr =
        install_and_script travis_yml @ (if v = ''2.7'' then [''coveralls''] else [])) \<and>
   (run_recipe sys (recipe_of (debian_rules d) t) u = (ok1, tr1, u1) \<and> (\<forall>e \<in> set tr1. snd e) \<longrightarrow>
      map fst tr1 = map command (recipe_of (debian_rules d) t)) \<and>
   (g \<in> set debian_goals \<and> run_make sys (debian_rules d) [g] u = (ok2, tr2, u2) \<and>
      (\<forall>e \<in> set tr2. snd e) \<longrightarrow>
      map fst tr2 = map command (plan (debian_rules d) g (file_exists sys u ''build-stamp'')))"
proof -
  have 1: "\<forall>c \<in> set (install travis_yml @ script travis_yml). \<exists>s. c = Simple s"
    by (rule all_simple)
  have 2: "run_job sys travis_yml v w = (res, tr, w') \<and> (\<forall>e \<in> set tr. snd e) \<longrightarrow>
      map fst tr =
        install_and_script travis_yml @ (if v = ''2.7'' then [''coveralls''] else [])"
  proof
    assume "run_job sys travis_yml v w = (res, tr, w') \<and> (\<forall>e \<in> set tr. snd e)"
    then have "run_job sys travis_yml v w = (res, tr, w')" "\<forall>e \<in> set tr. snd e"
      by simp_all
    from run_job_no_failure [OF this]
    show "map fst tr =
        install_and_script travis_yml @ (if v = ''2.7'' then [''coveralls''] else [])"
      by (rule conjunct2)
  qed
  have 3: "run_recipe sys (recipe_of (debian_rules d) t) u = (ok1, tr1, u1) \<and>
      (\<forall>e \<in> set tr1. snd e) \<longrightarrow>
      map fst tr1 = map command (recipe_of (debian_rules d) t)"
  proof
    assume "run_recipe sys (recipe_of (debian_rules d) t) u = (ok1, tr1, u1) \<and>
      (\<forall>e \<in> set tr1. snd e)"
    then have "run_recipe sys (recipe_of (debian_rules d) t) u = (ok1, tr1, u1)"
      "\<forall>e \<in> set tr1. snd e"
      by simp_all
    from run_recipe_no_failure [OF this]
    show "map fst tr1 = map command (recipe_of (debian_rules d) t)"
      by (rule conjunct2)
  qed
  have 4: "g \<in> set debian_goals \<and> run_make sys (debian_rules d) [g] u = (ok2, tr2, u2) \<and>
      (\<forall>e \<in> set tr2. snd e) \<longrightarrow>
      map fst tr2 = map command (plan (debian_rules d) g (file_exists sys u ''build-stamp''))"
  proof
    assume h: "g \<in> set debian_goals \<and> run_make sys (debian_rules d) [g] u = (ok2, tr2, u2) \<and>
      (\<forall>e \<in> set tr2. snd e)"
    then have g: "g \<in> set debian_goals" and a: "\<forall>e \<in> set tr2. snd e"
      by simp_all
    from h have "run_make sys (debian_rules d) [g] u = (ok2, tr2, u2)" by simp
    then have "run_recipe sys (plan (debian_rules d) g (file_exists sys u ''build-stamp'')) u
        = (ok2, tr2, u2)"
      unfolding run_make_plan [OF g] .
    from run_recipe_no_failure [OF this a]
    show "map fst tr2 = map command (plan (debian_rules d) g (file_exists sys u ''build-stamp''))"
      by (rule conjunct2)
  qed
  from 1 2 3 4 show ?thesis by (intro conjI)
qed

theorem unconditional_except_coveralls_witness:
  "list_all snd (fst (snd (run_job (sim []) travis_yml ''2.7'' []))) \<and>
   map fst (fst (snd (run_job (sim []) travis_yml ''2.7'' []))) =
     install_and_script travis_yml @ [''coveralls''] \<and>
   ''build'' \<in> set debian_goals \<and>
   run_make (sim []) (debian_rules ''/src'') [''build''] [] =
     (True, [(''dh_testdir'', True), (''python setup.py build'', True),
             (''touch build-stamp'', True), (''touch build-stamp'', True)], [''build-stamp'']) \<and>
   [''dh_testdir'', ''python setup.py build'', ''touch build-stamp'', ''touch build-stamp''] =
     map command (plan (debian_rules ''/src'') ''build'' (file_exists (sim []) [] ''build-stamp''))"
proof -
  let ?J = "run_job (sim []) travis_yml ''2.7'' []"
  let ?tr2 = "[(''dh_testdir'', True), (''python setup.py build'', True),
             (''touch build-stamp'', True), (''touch build-stamp'', True)]"
  note t = unconditional_except_coveralls [of "sim []" "''2.7''" "[]" "fst ?J" "fst (snd ?J)"
      "snd (snd ?J)" "''/src''" "''build''" "[]" True ?tr2 "[''build-stamp'']" "''build''"
      True ?tr2 "[''build-stamp'']"]
  have a: "\<forall>e \<in> set (fst (snd ?J)). snd e" by (rule green_job(2))
  then have a': "list_all snd (fst (snd ?J))" by (simp add: list_all_iff)
  have "map fst (fst (snd ?J)) =
      install_and_script travis_yml @ (if ''2.7'' = ''2.7'' then [''coveralls''] else [])"
    by (rule t [THEN conjunct2, THEN conjunct1, THEN mp]) (intro conjI run_job_collapse a)
  then have b: "map fst (fst (snd ?J)) = install_and_script travis_yml @ [''coveralls'']"
    by simp
  have g: "''build'' \<in> set debian_goals" by (simp add: debian_goals_def)
  have s: "\<forall>e \<in> set ?tr2. snd e" by simp
  have "map fst ?tr2 =
      map command (plan (debian_rules ''/src'') ''build'' (file_exists (sim []) [] ''build-stamp''))"
    by (rule t [THEN conjunct2, THEN conjunct2, THEN conjunct2, THEN mp])
       (intro conjI g green_build s)
  then have c: "[''dh_testdir'', ''python setup.py build'', ''touch build-stamp'',
      ''touch build-stamp''] =
      map command (plan (debian_rules ''/src'') ''build'' (file_exists (sim []) [] ''build-stamp''))"
    by simp
  from a' b g green_build c show ?thesis by (intro conjI)
qed

text \<open>
  C6, as stated, does not hold: a failure does not always end its sequence. In
  \<^verbatim>\<open>clean\<close> the bytecode-removal pipeline fails, \<^verbatim>\<open>dh_clean\<close> runs all the
  same and make succeeds; in a job whose \<^verbatim>\<open>make check\<close> fails, the three
  \<^verbatim>\<open>script\<close> commands after it still run and the job is marked failed.
\<close>

theorem failure_not_always_final:
  "run_make (sim [''find . -name '*.py[co]' | xargs rm -f'']) (debian_rules ''/src'') [''clean''] [] =
     (True, [(''dh_testdir'', True), (''dh_testroot'', True), (''rm -rf build-stamp build'', True),
             (''find . -name '*.py[co]' | xargs rm -f'', False), (''dh_clean'', True)], []) \<and>
   fst (run_job (sim [''make check'']) travis_yml ''2.7'' []) = Failed \<and>
   drop 10 (fst (snd (run_job (sim [''make check'']) travis_yml ''2.7'' []))) =
     [(''make check'', False), (''make build'', True), (''make builddoc'', True),
      (''make test'', True)]"
  by (simp add: run_make_plan debian_goals_def plan_def targets_run_def recipe_of_debian
      cmd_def dash_def sim_def run_job_def travis_yml_def travis_env_def)

text \<open>
  C6, amended. In the packaging script a failing command ends the run of make, with
  failure, and no command is executed after it, unless its line carries the
  \<^verbatim>\<open>-\<close> prefix: the bytecode-removal pipeline of \<^verbatim>\<open>clean\<close> is the one such
  line. In the CI script a failing command of \<^verbatim>\<open>install\<close> ends the job at once,
  errored, as the last command executed. A failing command of \<^verbatim>\<open>script\<close> does
  not end its sequence: the job is marked failed, all commands of \<^verbatim>\<open>script\<close> are
  executed all the same (the trace is the whole of \<^verbatim>\<open>install\<close> and
  \<^verbatim>\<open>script\<close>), and \<^verbatim>\<open>after_success\<close>, hence \<^verbatim>\<open>coveralls\<close>, does not
  run. A failing \<^verbatim>\<open>coveralls\<close> is the last command of a job that stays passed.
\<close>

theorem failure_ends_sequence:
  "(g \<in> set debian_goals \<and> run_make sys (debian_rules d) [g] w = (ok, tr, w') \<and>
      e \<in> set tr \<and> \<not> snd e \<and> fst e \<noteq> ''find . -name '*.py[co]' | xargs rm -f'' \<longrightarrow>
      \<not> ok \<and> last tr = e \<and>
      (\<forall>x \<in> set (butlast tr). \<not> snd x \<longrightarrow> fst x = ''find . -name '*.py[co]' | xargs rm -f'')) \<and>
   (run_job sys travis_yml v u = (res, tr', u') \<and> e' \<in> set tr' \<and> \<not> snd e' \<longrightarrow>
      (phase (fst e') = 0 \<longrightarrow>
         res = Errored \<and> last tr' = e' \<and> (\<forall>x \<in> set (butlast tr'). snd x)) \<and>
      (phase (fst e') \<in> {1, 2, 3} \<longrightarrow>
         res = Failed \<and> map fst tr' = install_and_script travis_yml \<and>
         ''coveralls'' \<notin> set (map fst tr')) \<and>
      (phase (fst e') = 4 \<longrightarrow> res = Passed \<and> last tr' = e'))"
proof (intro conjI)
  show "g \<in> set debian_goals \<and> run_make sys (debian_rules d) [g] w = (ok, tr, w') \<and>
      e \<in> set tr \<and> \<not> snd e \<and> fst e \<noteq> ''find . -name '*.py[co]' | xargs rm -f'' \<longrightarrow>
      \<not> ok \<and> last tr = e \<and>
      (\<forall>x \<in> set (butlast tr). \<not> snd x \<longrightarrow> fst x = ''find . -name '*.py[co]' | xargs rm -f'')"
  proof
    assume h: "g \<in> set debian_goals \<and> run_make sys (debian_rules d) [g] w = (ok, tr, w') \<and>
      e \<in> set tr \<and> \<not> snd e \<and> fst e \<noteq> ''find . -name '*.py[co]' | xargs rm -f''"
    then have "g \<in> set debian_goals" "run_make sys (debian_rules d) [g] w = (ok, tr, w')"
      "e \<in> set tr" "\<not> snd e" "fst e \<noteq> ''find . -name '*.py[co]' | xargs rm -f''"
      by simp_all
    then show "\<not> ok \<and> last tr = e \<and>
      (\<forall>x \<in> set (butlast tr). \<not> snd x \<longrightarrow> fst x = ''find . -name '*.py[co]' | xargs rm -f'')"
      by (rule make_fatal)
  qed
next
  show "run_job sys travis_yml v u = (res, tr', u') \<and> e' \<in> set tr' \<and> \<not> snd e' \<longrightarrow>
      (phase (fst e') = 0 \<longrightarrow>
         res = Errored \<and> last tr' = e' \<and> (\<forall>x \<in> set (butlast tr'). snd x)) \<and>
      (phase (fst e') \<in> {1, 2, 3} \<longrightarrow>
         res = Failed \<and> map fst tr' = install_and_script travis_yml \<and>
         ''coveralls'' \<notin> set (map fst tr')) \<and>
      (phase (fst e') = 4 \<longrightarrow> res = Passed \<and> last tr' = e')"
  proof
    assume "run_job sys travis_yml v u = (res, tr', u') \<and> e' \<in> set tr' \<and> \<not> snd e'"
    then have r: "run_job sys travis_yml v u = (res, tr', u')" and e: "e' \<in> set tr'" "\<not> snd e'"
      by simp_all
    note c = ci_failure [OF r e]
    have "res = Failed \<longrightarrow> map fst tr' = install_and_script travis_yml"
    proof
      assume f: "res = Failed"
      then have "res \<noteq> Errored" by simp
      from run_job_reaches_script [OF r this] f
      show "map fst tr' = install_and_script travis_yml" by auto
    qed
    with c show "(phase (fst e') = 0 \<longrightarrow>
         res = Errored \<and> last tr' = e' \<and> (\<forall>x \<in> set (butlast tr'). snd x)) \<and>
      (phase (fst e') \<in> {1, 2, 3} \<longrightarrow>
         res = Failed \<and> map fst tr' = install_and_script travis_yml \<and>
         ''coveralls'' \<notin> set (map fst tr')) \<and>
      (phase (fst e') = 4 \<longrightarrow> res = Passed \<and> last tr' = e')"
      by simp
  qed
qed

theorem failure_ends_sequence_witness:
  "''install'' \<in> set debian_goals \<and>
   run_make (sim [''dh_testroot'', ''make check'']) (debian_rules ''/src'') [''install''] [] =
     (False, [(''dh_testdir'', True), (''python setup.py build'', True),
              (''touch build-stamp'', True), (''touch build-stamp'', True),
              (''dh_testdir'', True), (''dh_testroot'', False)], [''build-stamp'']) \<and>
   fst (run_job (sim [''dh_testroot'', ''make check'']) travis_yml ''2.7'' []) = Failed \<and>
   (''make check'', False)
     \<in> set (fst (snd (run_job (sim [''dh_testroot'', ''make check'']) travis_yml ''2.7'' []))) \<and>
   map fst (fst (snd (run_job (sim [''dh_testroot'', ''make check'']) travis_yml ''2.7'' []))) =
     install_and_script travis_yml \<and>
   ''coveralls''
     \<notin> set (map fst (fst (snd (run_job (sim [''dh_testroot'', ''make check'']) travis_yml ''2.7'' []))))"
proof -
  let ?S = "sim [''dh_testroot'', ''make check'']"
  let ?tr = "[(''dh_testdir'', True), (''python setup.py build'', True),
              (''touch build-stamp'', True), (''touch build-stamp'', True),
              (''dh_testdir'', True), (''dh_testroot'', False)]"
  let ?J = "run_job ?S travis_yml ''2.7'' []"
  have g: "''install'' \<in> set debian_goals"
    by (simp add: debian_goals_def)
  have m: "run_make ?S (debian_rules ''/src'') [''install''] [] = (False, ?tr, [''build-stamp''])"
    by (simp add: run_make_plan debian_goals_def plan_def targets_run_def recipe_of_debian
        cmd_def sim_def)
  have r: "fst ?J = Failed"
    by (simp add: run_job_def travis_yml_def travis_env_def sim_def)
  have f: "(''make check'', False) \<in> set (fst (snd ?J))"
    by (simp add: run_job_def travis_yml_def travis_env_def sim_def)
  have n: "\<not> snd (''make check'', False)" by simp
  have p: "phase (fst (''make check'', False)) \<in> {1, 2, 3}"
    by (simp add: phase_def)
  note t = failure_ends_sequence [of "''install''" ?S "''/src''" "[]" False ?tr "[''build-stamp'']"
      "(''dh_testroot'', False)" "''2.7''" "[]" "fst ?J" "fst (snd ?J)" "snd (snd ?J)"
      "(''make check'', False)"]
  have "\<not> False \<and> last ?tr = (''dh_testroot'', False) \<and>
      (\<forall>x \<in> set (butlast ?tr). \<not> snd x \<longrightarrow> fst x = ''find . -name '*.py[co]' | xargs rm -f'')"
    by (rule t [THEN conjunct1, THEN mp]) (intro conjI g m; simp)
  have "fst ?J = Failed \<and> map fst (fst (snd ?J)) = install_and_script travis_yml \<and>
      ''coveralls'' \<notin> set (map fst (fst (snd ?J)))"
    by (rule t [THEN conjunct2, THEN mp, THEN conjunct2, THEN conjunct1, THEN mp])
       (intro conjI run_job_collapse f n, rule p)
  then have c: "map fst (fst (snd ?J)) = install_and_script travis_yml \<and>
      ''coveralls'' \<notin> set (map fst (fst (snd ?J)))"
    by (rule conjunct2)
  from c have c1: "map fst (fst (snd ?J)) = install_and_script travis_yml"
    by (rule conjunct1)
  from c have c2: "''coveralls'' \<notin> set (map fst (fst (snd ?J)))"
    by (rule conjunct2)
  from g m r f c1 c2 show ?thesis by (intro conjI)
qed

text \<open>
  C7. The pipeline runs its phases in the order install dependencies, run checks, build,
  run tests, report coverage. The commands a job executes are, in the order of their
  execution, a subsequence of the commands of the control file in the order of the file,
  and along the trace the phase of the executed command never decreases: no command of a
  phase runs before a command of an earlier phase has finished. The phases are executed:
  every job runs at least one command; a job that is not stopped in
  \<^verbatim>\<open>install\<close> runs all commands of \<^verbatim>\<open>install\<close> and \<^verbatim>\<open>script\<close>; and a job
  for Python 2.7 in which no executed command fails passes and runs the whole pipeline,
  every command of the file, coverage report included.
\<close>

theorem phases_in_order:
  assumes "run_job sys travis_yml v w = (res, tr, w')"
  shows "subseq (map fst tr) (pipeline travis_yml) \<and>
         sorted (map (phase \<circ> fst) tr) \<and>
         map phase (pipeline travis_yml) = [0, 0, 0, 0, 0, 0, 0, 0, 0, 0, 1, 2, 2, 3, 4] \<and>
         tr \<noteq> [] \<and>
         (res \<noteq> Errored \<longrightarrow> prefix (install_and_script travis_yml) (map fst tr)) \<and>
         ((\<forall>e \<in> set tr. snd e) \<and> v = ''2.7'' \<longrightarrow>
            res = Passed \<and> map fst tr = pipeline travis_yml)"
proof -
  have s: "subseq (map fst tr) (pipeline travis_yml)"
    by (rule run_job_subseq [OF assms])
  then have "subseq (map phase (map fst tr)) (map phase (pipeline travis_yml))"
    by (rule subseq_map)
  moreover have "sorted (map phase (pipeline travis_yml))"
    by (simp add: pipeline_phases)
  ultimately have "sorted (map phase (map fst tr))"
    by (rule sorted_wrt_subseq)
  then have 2: "sorted (map (phase \<circ> fst) tr)" by simp
  have 4: "tr \<noteq> []" by (rule run_job_nonempty [OF assms])
  have 5: "res \<noteq> Errored \<longrightarrow> prefix (install_and_script travis_yml) (map fst tr)"
  proof
    assume "res \<noteq> Errored"
    from run_job_reaches_script [OF assms this] obtain rest where
      "map fst tr = install_and_script travis_yml @ rest" by blast
    then show "prefix (install_and_script travis_yml) (map fst tr)" by simp
  qed
  have 6: "(\<forall>e \<in> set tr. snd e) \<and> v = ''2.7'' \<longrightarrow> res = Passed \<and> map fst tr = pipeline travis_yml"
  proof
    assume h: "(\<forall>e \<in> set tr. snd e) \<and> v = ''2.7''"
    then have "\<forall>e \<in> set tr. snd e" by simp
    from run_job_no_failure [OF assms this] h
    show "res = Passed \<and> map fst tr = pipeline travis_yml"
      by (simp add: pipeline_split)
  qed
  from s 2 pipeline_phases 4 5 6 show ?thesis by (intro conjI)
qed

theorem phases_in_order_witness:
  "list_all snd (fst (snd (run_job (sim []) travis_yml ''2.7'' []))) \<and>
   fst (run_job (sim []) travis_yml ''2.7'' []) = Passed \<and>
   map fst (fst (snd (run_job (sim []) travis_yml ''2.7'' []))) = pipeline travis_yml \<and>
   map (phase \<circ> fst) (fst (snd (run_job (sim []) travis_yml ''2.7'' []))) =
     [0, 0, 0, 0, 0, 0, 0, 0, 0, 0, 1, 2, 2, 3, 4] \<and>
   sorted (map (phase \<circ> fst) (fst (snd (run_job (sim []) travis_yml ''2.7'' []))))"
proof -
  let ?J = "run_job (sim []) travis_yml ''2.7'' []"
  note t = phases_in_order [OF run_job_collapse, of "sim []" "''2.7''" "[]"]
  have a: "\<forall>e \<in> set (fst (snd ?J)). snd e" by (rule green_job(2))
  then have a': "list_all snd (fst (snd ?J))" by (simp add: list_all_iff)
  have "fst ?J = Passed \<and> map fst (fst (snd ?J)) = pipeline travis_yml"
    by (rule t [THEN conjunct2, THEN conjunct2, THEN conjunct2, THEN conjunct2, THEN conjunct2,
        THEN mp]) (intro conjI a refl)
  then have b: "fst ?J = Passed" and c: "map fst (fst (snd ?J)) = pipeline travis_yml"
    by simp_all
  from c have "map phase (map fst (fst (snd ?J))) = map phase (pipeline travis_yml)"
    by simp
  then have d: "map (phase \<circ> fst) (fst (snd ?J)) = [0, 0, 0, 0, 0, 0, 0, 0, 0, 0, 1, 2, 2, 3, 4]"
    by (simp add: pipeline_phases)
  from t have e: "sorted (map (phase \<circ> fst) (fst (snd ?J)))"
    by (rule conjunct1 [OF conjunct2])
  from a' b c d e show ?thesis by (intro conjI)
qed

section \<open>A whole invocation of make\<close>

lemma read_debian_rules:
  "run_assignments sys (assignments (debian_rules d)) [] w =
     ([(pyver_call, fst (exec sys pyver_call w))], snd (exec sys pyver_call w))"
  by (simp add: debian_rules_def expand_def pyver_call_def case_prod_beta)

lemma invoke_make_debian:
  "invoke_make sys (debian_rules d) gs w =
     (case exec sys pyver_call w of (b, w0) \<Rightarrow>
        (case run_make sys (debian_rules d) gs w0 of (ok, tr, w') \<Rightarrow> (ok, (pyver_call, b) # tr, w')))"
  unfolding invoke_make_def read_debian_rules by (simp add: case_prod_beta)

lemma invoke_build_again:
  assumes "file_exists sys w ''build-stamp''" and "exec sys pyver_call w = (b, w)"
  shows "invoke_make sys (debian_rules d) [''build''] w = (True, [(pyver_call, b)], w)"
  unfolding invoke_make_debian using assms by (simp add: build_again)

lemma invoke_build_sim:
  "invoke_make (sim []) (debian_rules ''/src'') [''build''] [] =
     (True, [(pyver_call, True), (''dh_testdir'', True), (''python setup.py build'', True),
             (''touch build-stamp'', True), (''touch build-stamp'', True)], [''build-stamp''])"
  "invoke_make (sim []) (debian_rules ''/src'') [''build''] [''build-stamp''] =
     (True, [(pyver_call, True)], [''build-stamp''])"
  unfolding invoke_make_debian
  by (simp_all add: run_make_plan debian_goals_def plan_def targets_run_def recipe_of_debian
      cmd_def sim_def pyver_call_def)

text \<open>
  C8, as stated, does not hold of a whole invocation: reading the file runs the command
  of the \<^verbatim>\<open>PYVER\<close> assignment every time. A first invocation of \<^verbatim>\<open>build\<close>
  succeeds and creates the stamp file; the second one runs that command again.
\<close>

theorem build_runs_pyver_again:
  "invoke_make (sim []) (debian_rules ''/src'') [''build''] [] =
     (True, [(pyver_call, True), (''dh_testdir'', True), (''python setup.py build'', True),
             (''touch build-stamp'', True), (''touch build-stamp'', True)], [''build-stamp'']) \<and>
   file_exists (sim []) [''build-stamp''] ''build-stamp'' \<and>
   invoke_make (sim []) (debian_rules ''/src'') [''build''] [''build-stamp''] =
     (True, [(pyver_call, True)], [''build-stamp''])"
  by (simp add: invoke_build_sim) (simp add: sim_def)

text \<open>
  C8, amended. The build target is idempotent as far as recipes go: after one successful
  invocation of \<^verbatim>\<open>build\<close> that has created the file \<^verbatim>\<open>build-stamp\<close>, a further
  invocation executes no command of any recipe. The one command it executes is the
  python call of the \<^verbatim>\<open>PYVER\<close> assignment, made while the file is read, and when
  that call changes nothing the invocation leaves the machine as it is (and so does
  every invocation after it). That a successful goal phase does create the stamp file,
  on a machine where \<^verbatim>\<open>touch\<close> works, is lemma \<open>build_creates_stamp\<close>.
\<close>

theorem build_idempotent:
  assumes "invoke_make sys (debian_rules d) [''build''] w = (True, tr, w')"
    and "file_exists sys w' ''build-stamp''"
    and "exec sys pyver_call w' = (b, w')"
  shows "run_make sys (debian_rules d) [''build''] w' = (True, [], w') \<and>
         invoke_make sys (debian_rules d) [''build''] w' = (True, [(pyver_call, b)], w')"
  using build_again [OF assms(2)] invoke_build_again [OF assms(2,3)] by simp

theorem build_idempotent_witness:
  "invoke_make (sim []) (debian_rules ''/src'') [''build''] [] =
     (True, [(pyver_call, True), (''dh_testdir'', True), (''python setup.py build'', True),
             (''touch build-stamp'', True), (''touch build-stamp'', True)], [''build-stamp'']) \<and>
   file_exists (sim []) [''build-stamp''] ''build-stamp'' \<and>
   exec (sim []) pyver_call [''build-stamp''] = (True, [''build-stamp'']) \<and>
   run_make (sim []) (debian_rules ''/src'') [''build''] [''build-stamp''] =
     (True, [], [''build-stamp'']) \<and>
   invoke_make (sim []) (debian_rules ''/src'') [''build''] [''build-stamp''] =
     (True, [(pyver_call, True)], [''build-stamp''])"
proof -
  note a = invoke_build_sim(1)
  have b: "file_exists (sim []) [''build-stamp''] ''build-stamp''"
    by (simp add: sim_def)
  have c: "exec (sim []) pyver_call [''build-stamp''] = (True, [''build-stamp''])"
    by (simp add: sim_def pyver_call_def)
  from build_idempotent [OF a b c] a b c show ?thesis by (intro conjI) simp_all
qed

end
